theory Spec2Isabelle
  imports Main "HOL-Library.Word"
begin

unbundle bit_operations_syntax

section \<open>EduASM engine: data model\<close>

text \<open>
  The engine lives in \<^verbatim>\<open>src/src/routes/DebuggerStandalone.tsx\<close> (the part that
  starts with the comment "EduASM Engine"). Modelling conventions:

  \<^item> A JavaScript \<^verbatim>\<open>number\<close> is an IEEE double. Every number the engine and the
    assembler compute with is an integer, and the model keeps it as an \<open>int\<close>: the
    doubles that are integers. Sums and differences are rounded as the double
    arithmetic rounds them (\<open>nearest_double\<close>: exact up to \<open>2^53\<close> in magnitude, to
    the nearest double beyond). \<^verbatim>\<open>NaN\<close>, the infinities and \<^verbatim>\<open>undefined\<close>
    are not values of the model: where the JavaScript would go on with one of them
    (reading \<^verbatim>\<open>cpu.R[i]\<close> with \<open>i\<close> outside the array, looking up a label
    that the table lacks without checking, a sum beyond the largest double) the
    embedding stops with the value \<open>Undef\<close>, its instruction with \<open>Unmodelled\<close>
    and the step with \<open>OutsideModel\<close>; no theorem concludes anything from these.
    It stops in the same way at a quotient of operands beyond \<open>2^53\<close>
    (\<open>js_trunc_div\<close>) and at a step counter that has reached \<open>2^53\<close> (\<open>run_loop\<close>).
  \<^item> \<^verbatim>\<open>cpu.R\<close> is an \<^verbatim>\<open>Int32Array(8)\<close>: a list of eight \<open>32 word\<close>; a store
    wraps (\<open>word_of_int\<close>), a load reads the signed value (\<open>sint\<close>). \<^verbatim>\<open>SP\<close>,
    \<^verbatim>\<open>BP\<close> and \<^verbatim>\<open>IP\<close> are plain numbers and do not wrap.
  \<^item> \<^verbatim>\<open>ram\<close> is a \<^verbatim>\<open>DataView\<close> over \<open>RAM_SIZE\<close> bytes (every caller creates
    it so): a function from byte offsets to bytes, with the bounds check of
    \<^verbatim>\<open>getInt32\<close>/\<^verbatim>\<open>setInt32\<close> (a \<^verbatim>\<open>RangeError\<close>) written out.
  \<^item> \<^verbatim>\<open>throw\<close> is a value: \<open>step\<close> returns the fault together with the CPU and
    memory as they are when the exception leaves \<open>step\<close>, since the JavaScript
    mutates them in place before throwing.
  \<^item> The label table is a finite map from names to numbers; the properties a
    JavaScript object inherits from \<^verbatim>\<open>Object.prototype\<close> are written out where
    the code can meet them (\<open>object_prototype_keys\<close>).
\<close>

record Flags =
  ZF :: bool
  NF :: bool
  CF :: bool
  OF :: bool

record CPU =
  R :: "32 word list"
  SP :: int
  BP :: int
  IP :: int
  F :: Flags
  halted :: bool

datatype optype = Reg | Imm | Mem | Label

datatype opvalue = Num int | Str string

record Operand =
  otype :: optype
  ovalue :: opvalue
  offset :: "int option"
  indirect :: bool

record Instruction =
  op :: string
  operands :: "Operand list"
  line :: nat
  source :: string

record Program =
  lines :: "string list"
  ast :: "Instruction list"
  labels :: "string \<rightharpoonup> int"
  dataSection :: "nat \<Rightarrow> 8 word"
  textStart :: int

text \<open>Every \<^verbatim>\<open>throw new Error(...)\<close> of the execution engine, with the values its
  message interpolates; \<open>RangeError\<close> and \<open>TypeError\<close> are the exceptions of the
  JavaScript runtime itself (a \<^verbatim>\<open>DataView\<close> access out of bounds, a property
  read on a missing operand), \<open>HookError\<close> an exception thrown by the host's
  \<^verbatim>\<open>onSys\<close>.\<close>

datatype runtime_error =
    InvalidRegisterIndex int
  | UndefinedLabel string
  | MemoryAccessOutOfBounds int
  | MovDestinationMustBeRegister
  | LoadDestinationMustBeRegister
  | StoreDestinationMustBeMemory
  | MemoryStoreOutOfBounds int
  | LeaDestinationMustBeRegister
  | DivisionByZero
  | InvalidShiftAmount int
  | JumpTargetOutOfBounds int
  | StackOverflow
  | StackUnderflow
  | PopDestinationMustBeRegister
  | CallTargetOutOfBounds int
  | StackOverflowOnCall
  | StackUnderflowOnRet
  | InvalidReturnAddress int
  | UnknownSyscall int
  | UnimplementedInstruction string
  | RangeError
  | TypeError
  | HookError string

text \<open>\<^verbatim>\<open>class AsmError\<close>: the source line and the message.\<close>

datatype 'm AsmError = AsmError (err_line: nat) (err_message: 'm)

datatype 'a res = Ok 'a | Err runtime_error | Undef

type_synonym ram = "int \<Rightarrow> 8 word"

definition RAM_SIZE :: int where
  "RAM_SIZE = 65536"

definition STACK_START :: int where
  "STACK_START = RAM_SIZE - 4"

definition createCPU :: CPU where
  "createCPU = \<lparr>R = replicate 8 0, SP = STACK_START, BP = STACK_START, IP = 0,
     F = \<lparr>ZF = False, NF = False, CF = False, OF = False\<rparr>, halted = False\<rparr>"

subsection \<open>Numbers, typed arrays and the DataView\<close>

text \<open>The double nearest to an integer \<open>k\<close>. A double has a significand of 53 bits:
  \<open>excess_bits\<close> counts the low bits of \<open>\<bar>k\<bar>\<close> that do not fit, \<open>q\<close> is the
  significand that remains and \<open>r\<close> the part cut off, which rounds \<open>q\<close> up when it
  is more than half a unit of \<open>q\<close>, or exactly half and \<open>q\<close> is odd (round to nearest,
  ties to even). For \<open>\<bar>k\<bar> \<le> 2^53\<close> nothing is cut off.\<close>

function excess_bits :: "int \<Rightarrow> nat" where
  "excess_bits k = (if k < 2 ^ 53 then 0 else Suc (excess_bits (k div 2)))"
  by pat_completeness auto
termination
  by (relation "measure nat") auto

declare excess_bits.simps [simp del]

definition nearest_double :: "int \<Rightarrow> int" where
  "nearest_double k =
     (let e = excess_bits \<bar>k\<bar>; q = \<bar>k\<bar> div 2 ^ e; r = \<bar>k\<bar> mod 2 ^ e;
          m = (if 2 ^ e < 2 * r \<or> (2 * r = 2 ^ e \<and> odd q) then q + 1 else q)
      in sgn k * m * 2 ^ e)"

text \<open>The number that JavaScript computes for an exact integer result \<open>k\<close> (of
  \<^verbatim>\<open>a + b\<close>, \<^verbatim>\<open>a - b\<close> on integers): the nearest double, or an infinity, which
  the model does not have, when that is \<open>2^1024\<close> or more in magnitude. Adding a
  small constant to a double (\<^verbatim>\<open>cpu.SP -= 4\<close>, \<^verbatim>\<open>cpu.IP++\<close>) never reaches
  an infinity; there the model writes \<open>nearest_double\<close> itself.\<close>

definition js_number :: "int \<Rightarrow> int res" where
  "js_number k = (if \<bar>nearest_double k\<bar> < 2 ^ 1024 then Ok (nearest_double k) else Undef)"

text \<open>\<^verbatim>\<open>x >>> 0\<close>: the conversion ToUint32. (The conversion ToInt32 of a store into
  the \<^verbatim>\<open>Int32Array\<close>, of the bitwise operators and of \<^verbatim>\<open>setInt32\<close> is
  \<open>sint (word_of_int x :: 32 word)\<close>, written out where it occurs.)\<close>

definition to_uint32 :: "int \<Rightarrow> int" where
  "to_uint32 x = uint (word_of_int x :: 32 word)"

text \<open>The 32-bit word of four bytes, the least significant first.\<close>

definition le_word :: "8 word \<Rightarrow> 8 word \<Rightarrow> 8 word \<Rightarrow> 8 word \<Rightarrow> 32 word" where
  "le_word b0 b1 b2 b3 =
     ucast b0 OR push_bit 8 (ucast b1) OR push_bit 16 (ucast b2) OR push_bit 24 (ucast b3)"

text \<open>\<^verbatim>\<open>ram.getInt32(addr, true)\<close> and \<^verbatim>\<open>ram.setInt32(addr, value, true)\<close>.\<close>

definition getInt32 :: "ram \<Rightarrow> int \<Rightarrow> int res" where
  "getInt32 ram addr =
     (if addr < 0 \<or> RAM_SIZE < addr + 4 then Err RangeError
      else Ok (sint (le_word (ram addr) (ram (addr + 1)) (ram (addr + 2)) (ram (addr + 3)))))"

definition setInt32 :: "ram \<Rightarrow> int \<Rightarrow> int \<Rightarrow> ram res" where
  "setInt32 ram addr v =
     (if addr < 0 \<or> RAM_SIZE < addr + 4 then Err RangeError
      else Ok (let w = (word_of_int v :: 32 word) in
        ram(addr := ucast w, addr + 1 := ucast (drop_bit 8 w),
            addr + 2 := ucast (drop_bit 16 w), addr + 3 := ucast (drop_bit 24 w))))"

text \<open>\<^verbatim>\<open>cpu.R[i]\<close> on the \<^verbatim>\<open>Int32Array\<close>: a read outside the array is
  \<^verbatim>\<open>undefined\<close>, a write there is ignored, a write inside wraps to 32 bits.\<close>

definition typed_get :: "32 word list \<Rightarrow> int \<Rightarrow> int res" where
  "typed_get xs i = (if 0 \<le> i \<and> i < int (length xs) then Ok (sint (xs ! nat i)) else Undef)"

definition typed_set :: "32 word list \<Rightarrow> int \<Rightarrow> int \<Rightarrow> 32 word list" where
  "typed_set xs i v = (if 0 \<le> i \<and> i < int (length xs) then xs[nat i := word_of_int v] else xs)"

text \<open>The accessor the engine repeats inline in every instruction:
  \<^verbatim>\<open>regIndex === -1 ? cpu.SP : regIndex === -2 ? cpu.BP : cpu.R[regIndex]\<close>, on
  \<^verbatim>\<open>operands[k].value\<close> whatever the operand's type is, and the matching store
  \<^verbatim>\<open>if (regIndex === -1) cpu.SP = x; else if (regIndex === -2) cpu.BP = x;
  else cpu.R[regIndex] = x\<close>.\<close>

definition reg_read :: "CPU \<Rightarrow> opvalue \<Rightarrow> int res" where
  "reg_read cpu v =
     (case v of
        Num regIndex \<Rightarrow>
          if regIndex = -1 then Ok (SP cpu)
          else if regIndex = -2 then Ok (BP cpu)
          else typed_get (R cpu) regIndex
      | Str s \<Rightarrow> Undef)"

definition reg_write :: "CPU \<Rightarrow> opvalue \<Rightarrow> int \<Rightarrow> CPU" where
  "reg_write cpu v x =
     (case v of
        Num regIndex \<Rightarrow>
          if regIndex = -1 then cpu\<lparr>SP := x\<rparr>
          else if regIndex = -2 then cpu\<lparr>BP := x\<rparr>
          else cpu\<lparr>R := typed_set (R cpu) regIndex x\<rparr>
      | Str s \<Rightarrow> cpu)"

text \<open>The label table is the JavaScript object \<^verbatim>\<open>{}\<close> with the labels as its
  properties. A lookup \<^verbatim>\<open>labels[name]\<close> of a name the table lacks is
  \<^verbatim>\<open>undefined\<close>, unless \<open>name\<close> is one of the properties every object inherits
  from \<^verbatim>\<open>Object.prototype\<close>: then it is a function or an object, not a number, which
  is outside the model.\<close>

definition object_prototype_keys :: "string list" where
  "object_prototype_keys =
     [''constructor'', ''__defineGetter__'', ''__defineSetter__'', ''hasOwnProperty'',
      ''__lookupGetter__'', ''__lookupSetter__'', ''isPrototypeOf'', ''propertyIsEnumerable'',
      ''toString'', ''valueOf'', ''__proto__'', ''toLocaleString'']"

text \<open>\<^verbatim>\<open>const a = labels[name]; if (a === undefined) throw new Error(...)\<close>, the
  checked lookup of \<^verbatim>\<open>resolveOperand\<close>.\<close>

definition checked_lookup :: "(string \<rightharpoonup> int) \<Rightarrow> string \<Rightarrow> int res" where
  "checked_lookup tbl name =
     (case tbl name of
        Some a \<Rightarrow> Ok a
      | None \<Rightarrow> if name \<in> set object_prototype_keys then Undef else Err (UndefinedLabel name))"

text \<open>\<^verbatim>\<open>program.labels[name]\<close> with no check of the result.\<close>

definition label_lookup :: "(string \<rightharpoonup> int) \<Rightarrow> opvalue \<Rightarrow> int res" where
  "label_lookup tbl v =
     (case v of
        Str name \<Rightarrow> (case tbl name of Some a \<Rightarrow> Ok a | None \<Rightarrow> Undef)
      | Num n \<Rightarrow> Undef)"

subsection \<open>resolveOperand\<close>

definition resolveOperand :: "Operand \<Rightarrow> CPU \<Rightarrow> ram \<Rightarrow> (string \<rightharpoonup> int) \<Rightarrow> int res" where
  "resolveOperand operand cpu ram tbl =
     (case otype operand of
        Imm \<Rightarrow> (case ovalue operand of Num v \<Rightarrow> Ok v | Str s \<Rightarrow> Undef)
      | Reg \<Rightarrow>
          (case ovalue operand of
             Num regIndex \<Rightarrow>
               if regIndex = -1 then Ok (SP cpu)
               else if regIndex = -2 then Ok (BP cpu)
               else if regIndex < 0 \<or> 8 \<le> regIndex then Err (InvalidRegisterIndex regIndex)
               else typed_get (R cpu) regIndex
           | Str s \<Rightarrow> Undef)
      | Mem \<Rightarrow>
          (case (case ovalue operand of
                   Str name \<Rightarrow> checked_lookup tbl name
                 | Num n \<Rightarrow>
                     if indirect operand then
                       (case reg_read cpu (Num n) of
                          Ok baseAddr \<Rightarrow>
                            js_number (baseAddr + (case offset operand of Some k \<Rightarrow> k | None \<Rightarrow> 0))
                        | Err e \<Rightarrow> Err e
                        | Undef \<Rightarrow> Undef)
                     else Ok n) of
             Ok addr \<Rightarrow>
               if addr < 0 \<or> RAM_SIZE - 3 \<le> addr then Err (MemoryAccessOutOfBounds addr)
               else getInt32 ram addr
           | Err e \<Rightarrow> Err e
           | Undef \<Rightarrow> Undef)
      | Label \<Rightarrow>
          (case ovalue operand of
             Str name \<Rightarrow> checked_lookup tbl name
           | Num n \<Rightarrow> Undef))"

subsection \<open>setFlags\<close>

datatype operation = OpAdd | OpSub | OpMul | OpDiv | OpCmp | OpLogic

definition setFlags :: "CPU \<Rightarrow> int \<Rightarrow> int option \<Rightarrow> int option \<Rightarrow> operation \<Rightarrow> CPU" where
  "setFlags cpu result a b operation =
     (let f = (F cpu)\<lparr>ZF := (result = 0), NF := (result < 0)\<rparr> in
      case (operation, a, b) of
        (OpAdd, Some a, Some b) \<Rightarrow>
          (let unsignedResult = to_uint32 a + to_uint32 b;
               signA = (a < 0); signB = (b < 0); signResult = (result < 0)
           in cpu\<lparr>F := f\<lparr>CF := (unsignedResult > 0xFFFFFFFF),
                           OF := ((signA = signB) \<and> (signA \<noteq> signResult))\<rparr>\<rparr>)
      | (OpSub, Some a, Some b) \<Rightarrow>
          (let signA = (a < 0); signB = (b < 0); signResult = (result < 0)
           in cpu\<lparr>F := f\<lparr>CF := (to_uint32 a < to_uint32 b),
                           OF := ((signA \<noteq> signB) \<and> (signB = signResult))\<rparr>\<rparr>)
      | (OpMul, Some a, Some b) \<Rightarrow>
          (let product = a * b;
               c = (product > 0x7FFFFFFFF \<or> product < - 0x800000000)
           in cpu\<lparr>F := f\<lparr>CF := c, OF := c\<rparr>\<rparr>)
      | _ \<Rightarrow> cpu\<lparr>F := f\<lparr>CF := False, OF := False\<rparr>\<rparr>)"

subsection \<open>step\<close>

text \<open>How the body of the \<^verbatim>\<open>try\<close> block of \<^verbatim>\<open>step\<close> ends: with \<^verbatim>\<open>break\<close>
  (the instruction pointer is then incremented), with \<^verbatim>\<open>return\<close> (it is not), or
  with an exception, each with the CPU and memory as mutated so far.\<close>

datatype exec_result = Break CPU ram | Return CPU ram | Throw runtime_error CPU ram | Unmodelled

datatype outcome = Done CPU ram | Fault "runtime_error AsmError" CPU ram | OutsideModel

text \<open>The host's \<^verbatim>\<open>onSys(syscall, cpu, ram)\<close>: it may mutate the CPU and the memory,
  and it may throw (the message is then \<open>Some\<close>).\<close>

type_synonym onSys = "int \<Rightarrow> CPU \<Rightarrow> ram \<Rightarrow> string option \<times> CPU \<times> ram"

text \<open>\<^verbatim>\<open>operands[k]\<close>: reading a property of a missing operand is a
  \<^verbatim>\<open>TypeError\<close>, thrown inside the \<^verbatim>\<open>try\<close> block.\<close>

definition on_operand :: "Operand list \<Rightarrow> nat \<Rightarrow> CPU \<Rightarrow> ram \<Rightarrow> (Operand \<Rightarrow> exec_result) \<Rightarrow> exec_result" where
  "on_operand ops k cpu ram cont =
     (if k < length ops then cont (ops ! k) else Throw TypeError cpu ram)"

definition on_value :: "'a res \<Rightarrow> CPU \<Rightarrow> ram \<Rightarrow> ('a \<Rightarrow> exec_result) \<Rightarrow> exec_result" where
  "on_value r cpu ram cont =
     (case r of Ok v \<Rightarrow> cont v | Err e \<Rightarrow> Throw e cpu ram | Undef \<Rightarrow> Unmodelled)"

definition exec_MOV :: "Operand list \<Rightarrow> CPU \<Rightarrow> Program \<Rightarrow> ram \<Rightarrow> exec_result" where
  "exec_MOV ops cpu program ram =
     on_operand ops 1 cpu ram (\<lambda>o1.
     on_value (if otype o1 = Label then label_lookup (labels program) (ovalue o1)
               else resolveOperand o1 cpu ram (labels program)) cpu ram (\<lambda>src.
     on_operand ops 0 cpu ram (\<lambda>o0.
       if otype o0 = Reg then Break (reg_write cpu (ovalue o0) src) ram
       else Throw MovDestinationMustBeRegister cpu ram)))"

definition exec_LOAD :: "Operand list \<Rightarrow> CPU \<Rightarrow> Program \<Rightarrow> ram \<Rightarrow> exec_result" where
  "exec_LOAD ops cpu program ram =
     on_operand ops 1 cpu ram (\<lambda>o1.
     on_value (resolveOperand o1 cpu ram (labels program)) cpu ram (\<lambda>v.
     on_operand ops 0 cpu ram (\<lambda>o0.
       if otype o0 = Reg then Break (reg_write cpu (ovalue o0) v) ram
       else Throw LoadDestinationMustBeRegister cpu ram)))"

definition exec_STORE :: "Operand list \<Rightarrow> CPU \<Rightarrow> Program \<Rightarrow> ram \<Rightarrow> exec_result" where
  "exec_STORE ops cpu program ram =
     on_operand ops 1 cpu ram (\<lambda>o1.
     on_value (resolveOperand o1 cpu ram (labels program)) cpu ram (\<lambda>v.
     on_operand ops 0 cpu ram (\<lambda>o0.
       if otype o0 \<noteq> Mem then Throw StoreDestinationMustBeMemory cpu ram
       else
         on_value
           (case ovalue o0 of
              Str name \<Rightarrow> label_lookup (labels program) (Str name)
            | Num n \<Rightarrow>
                if indirect o0 then
                  (case reg_read cpu (Num n) of
                     Ok baseAddr \<Rightarrow>
                       js_number (baseAddr + (case offset o0 of Some k \<Rightarrow> k | None \<Rightarrow> 0))
                   | Err e \<Rightarrow> Err e
                   | Undef \<Rightarrow> Undef)
                else Ok n) cpu ram (\<lambda>addr.
           if addr < 0 \<or> RAM_SIZE - 3 \<le> addr then Throw (MemoryStoreOutOfBounds addr) cpu ram
           else on_value (setInt32 ram addr v) cpu ram (\<lambda>ram'. Break cpu ram')))))"

definition exec_LEA :: "Operand list \<Rightarrow> CPU \<Rightarrow> Program \<Rightarrow> ram \<Rightarrow> exec_result" where
  "exec_LEA ops cpu program ram =
     on_operand ops 0 cpu ram (\<lambda>o0.
       if otype o0 \<noteq> Reg then Throw LeaDestinationMustBeRegister cpu ram
       else
         on_operand ops 1 cpu ram (\<lambda>o1.
         on_value
           (if otype o1 = Label then label_lookup (labels program) (ovalue o1)
            else (case ovalue o1 of
                    Str name \<Rightarrow> if otype o1 = Mem then label_lookup (labels program) (Str name) else Undef
                  | Num n \<Rightarrow> Ok n)) cpu ram (\<lambda>addr.
           Break (reg_write cpu (ovalue o0) addr) ram)))"

text \<open>ADD, SUB and MUL: the left operand is read through the register accessor, the
  JavaScript result is computed on numbers (\<^verbatim>\<open>a + b\<close> and \<^verbatim>\<open>a - b\<close> do not wrap
  to 32 bits, \<^verbatim>\<open>Math.imul\<close> does), the store into the register wraps, and
  \<^verbatim>\<open>setFlags\<close> receives the result as computed.\<close>

definition exec_ADD :: "Operand list \<Rightarrow> CPU \<Rightarrow> Program \<Rightarrow> ram \<Rightarrow> exec_result" where
  "exec_ADD ops cpu program ram =
     on_operand ops 0 cpu ram (\<lambda>o0.
     on_value (reg_read cpu (ovalue o0)) cpu ram (\<lambda>a.
     on_operand ops 1 cpu ram (\<lambda>o1.
     on_value (resolveOperand o1 cpu ram (labels program)) cpu ram (\<lambda>b.
     on_value (js_number (a + b)) cpu ram (\<lambda>result.
       Break (setFlags (reg_write cpu (ovalue o0) result) result (Some a) (Some b) OpAdd) ram)))))"

definition exec_SUB :: "Operand list \<Rightarrow> CPU \<Rightarrow> Program \<Rightarrow> ram \<Rightarrow> exec_result" where
  "exec_SUB ops cpu program ram =
     on_operand ops 0 cpu ram (\<lambda>o0.
     on_value (reg_read cpu (ovalue o0)) cpu ram (\<lambda>a.
     on_operand ops 1 cpu ram (\<lambda>o1.
     on_value (resolveOperand o1 cpu ram (labels program)) cpu ram (\<lambda>b.
     on_value (js_number (a - b)) cpu ram (\<lambda>result.
       Break (setFlags (reg_write cpu (ovalue o0) result) result (Some a) (Some b) OpSub) ram)))))"

definition exec_MUL :: "Operand list \<Rightarrow> CPU \<Rightarrow> Program \<Rightarrow> ram \<Rightarrow> exec_result" where
  "exec_MUL ops cpu program ram =
     on_operand ops 0 cpu ram (\<lambda>o0.
     on_value (reg_read cpu (ovalue o0)) cpu ram (\<lambda>a.
     on_operand ops 1 cpu ram (\<lambda>o1.
     on_value (resolveOperand o1 cpu ram (labels program)) cpu ram (\<lambda>b.
       let result = sint ((word_of_int a :: 32 word) * word_of_int b) in
       Break (setFlags (reg_write cpu (ovalue o0) result) result (Some a) (Some b) OpMul) ram))))"

text \<open>\<^verbatim>\<open>Math.trunc(a / b)\<close> for \<open>b \<noteq> 0\<close>. The double \<^verbatim>\<open>a / b\<close> is the
  exact quotient rounded to 53 bits. For operands of magnitude at most \<open>2^53\<close> the
  rounding never reaches the next integer (a quotient that is not an integer is at
  least \<open>1 / \<bar>b\<bar>\<close> away from one, more than half a unit in its last place), so the
  truncation is that of the exact quotient, rounded towards zero. Greater operands
  are outside the model.\<close>

definition trunc_div :: "int \<Rightarrow> int \<Rightarrow> int" where
  "trunc_div a b = (if (a < 0) = (b < 0) then \<bar>a\<bar> div \<bar>b\<bar> else - (\<bar>a\<bar> div \<bar>b\<bar>))"

definition js_trunc_div :: "int \<Rightarrow> int \<Rightarrow> int res" where
  "js_trunc_div a b = (if \<bar>a\<bar> \<le> 2 ^ 53 \<and> \<bar>b\<bar> \<le> 2 ^ 53 then Ok (trunc_div a b) else Undef)"

definition exec_DIV :: "Operand list \<Rightarrow> CPU \<Rightarrow> Program \<Rightarrow> ram \<Rightarrow> exec_result" where
  "exec_DIV ops cpu program ram =
     on_operand ops 1 cpu ram (\<lambda>o1.
     on_value (resolveOperand o1 cpu ram (labels program)) cpu ram (\<lambda>b.
       if b = 0 then Throw DivisionByZero (cpu\<lparr>F := (F cpu)\<lparr>CF := True\<rparr>\<rparr>) ram
       else
         on_operand ops 0 cpu ram (\<lambda>o0.
         on_value (reg_read cpu (ovalue o0)) cpu ram (\<lambda>a.
         on_value (js_trunc_div a b) cpu ram (\<lambda>result.
           Break (setFlags (reg_write cpu (ovalue o0) result) result (Some a) (Some b) OpDiv) ram)))))"

definition exec_INC :: "Operand list \<Rightarrow> CPU \<Rightarrow> Program \<Rightarrow> ram \<Rightarrow> exec_result" where
  "exec_INC ops cpu program ram =
     on_operand ops 0 cpu ram (\<lambda>o0.
     on_value (reg_read cpu (ovalue o0)) cpu ram (\<lambda>current.
       let result = nearest_double (current + 1) in
       Break (setFlags (reg_write cpu (ovalue o0) result) result (Some current) (Some 1) OpAdd) ram))"

definition exec_DEC :: "Operand list \<Rightarrow> CPU \<Rightarrow> Program \<Rightarrow> ram \<Rightarrow> exec_result" where
  "exec_DEC ops cpu program ram =
     on_operand ops 0 cpu ram (\<lambda>o0.
     on_value (reg_read cpu (ovalue o0)) cpu ram (\<lambda>current.
       let result = nearest_double (current - 1) in
       Break (setFlags (reg_write cpu (ovalue o0) result) result (Some current) (Some 1) OpSub) ram))"

text \<open>AND, OR and XOR (\<^verbatim>\<open>a & b\<close>, \<^verbatim>\<open>a | b\<close>, \<^verbatim>\<open>a ^ b\<close>: both operands through
  ToInt32, the result a signed 32-bit value), then \<^verbatim>\<open>setFlags(cpu, result)\<close>.\<close>

definition exec_bitwise :: "(32 word \<Rightarrow> 32 word \<Rightarrow> 32 word) \<Rightarrow> Operand list \<Rightarrow> CPU \<Rightarrow> Program \<Rightarrow> ram \<Rightarrow> exec_result" where
  "exec_bitwise f ops cpu program ram =
     on_operand ops 0 cpu ram (\<lambda>o0.
     on_value (reg_read cpu (ovalue o0)) cpu ram (\<lambda>a.
     on_operand ops 1 cpu ram (\<lambda>o1.
     on_value (resolveOperand o1 cpu ram (labels program)) cpu ram (\<lambda>b.
       let result = sint (f (word_of_int a) (word_of_int b)) in
       Break (setFlags (reg_write cpu (ovalue o0) result) result None None OpLogic) ram))))"

definition exec_NOT :: "Operand list \<Rightarrow> CPU \<Rightarrow> Program \<Rightarrow> ram \<Rightarrow> exec_result" where
  "exec_NOT ops cpu program ram =
     on_operand ops 0 cpu ram (\<lambda>o0.
     on_value (reg_read cpu (ovalue o0)) cpu ram (\<lambda>current.
       let result = sint (NOT (word_of_int current :: 32 word)) in
       Break (setFlags (reg_write cpu (ovalue o0) result) result None None OpLogic) ram))"

text \<open>SHL: \<^verbatim>\<open>current << shift\<close> is a signed 32-bit value. The carry flag is assigned
  from the last bit shifted out, and then \<^verbatim>\<open>setFlags(cpu, result)\<close> runs, in this
  order, as in the source.\<close>

definition exec_SHL :: "Operand list \<Rightarrow> CPU \<Rightarrow> Program \<Rightarrow> ram \<Rightarrow> exec_result" where
  "exec_SHL ops cpu program ram =
     on_operand ops 0 cpu ram (\<lambda>o0.
     on_value (reg_read cpu (ovalue o0)) cpu ram (\<lambda>current.
     on_operand ops 1 cpu ram (\<lambda>o1.
     on_value (resolveOperand o1 cpu ram (labels program)) cpu ram (\<lambda>shift.
       if shift < 0 \<or> shift > 31 then Throw (InvalidShiftAmount shift) cpu ram
       else
         let result = sint (push_bit (nat shift) (word_of_int current :: 32 word));
             cpu1 = reg_write cpu (ovalue o0) result;
             cpu2 = cpu1\<lparr>F := (F cpu1)\<lparr>CF := (shift > 0 \<and>
                      drop_bit (nat (32 - shift)) (word_of_int current :: 32 word) AND 1 = 1)\<rparr>\<rparr>
         in Break (setFlags cpu2 result None None OpLogic) ram))))"

text \<open>SHR: \<^verbatim>\<open>current >>> shift\<close> is an unsigned 32-bit value.\<close>

definition exec_SHR :: "Operand list \<Rightarrow> CPU \<Rightarrow> Program \<Rightarrow> ram \<Rightarrow> exec_result" where
  "exec_SHR ops cpu program ram =
     on_operand ops 0 cpu ram (\<lambda>o0.
     on_value (reg_read cpu (ovalue o0)) cpu ram (\<lambda>current.
     on_operand ops 1 cpu ram (\<lambda>o1.
     on_value (resolveOperand o1 cpu ram (labels program)) cpu ram (\<lambda>shift.
       if shift < 0 \<or> shift > 31 then Throw (InvalidShiftAmount shift) cpu ram
       else
         let result = uint (drop_bit (nat shift) (word_of_int current :: 32 word));
             cpu1 = reg_write cpu (ovalue o0) result;
             cpu2 = cpu1\<lparr>F := (F cpu1)\<lparr>CF := (shift > 0 \<and>
                      drop_bit (nat (shift - 1)) (word_of_int current :: 32 word) AND 1 = 1)\<rparr>\<rparr>
         in Break (setFlags cpu2 result None None OpLogic) ram))))"

definition exec_CMP :: "Operand list \<Rightarrow> CPU \<Rightarrow> Program \<Rightarrow> ram \<Rightarrow> exec_result" where
  "exec_CMP ops cpu program ram =
     on_operand ops 0 cpu ram (\<lambda>o0.
     on_value (resolveOperand o0 cpu ram (labels program)) cpu ram (\<lambda>a.
     on_operand ops 1 cpu ram (\<lambda>o1.
     on_value (resolveOperand o1 cpu ram (labels program)) cpu ram (\<lambda>b.
     on_value (js_number (a - b)) cpu ram (\<lambda>result.
       Break (setFlags cpu result (Some a) (Some b) OpCmp) ram)))))"

definition exec_JMP :: "Operand list \<Rightarrow> CPU \<Rightarrow> Program \<Rightarrow> ram \<Rightarrow> exec_result" where
  "exec_JMP ops cpu program ram =
     on_operand ops 0 cpu ram (\<lambda>o0.
     on_value (resolveOperand o0 cpu ram (labels program)) cpu ram (\<lambda>target.
       if target < 0 \<or> int (length (ast program)) \<le> target
       then Throw (JumpTargetOutOfBounds target) cpu ram
       else Return (cpu\<lparr>IP := target\<rparr>) ram))"

text \<open>The ten conditional jumps have the same body in the source, under their
  respective conditions: \<^verbatim>\<open>if (cond) { const target = resolveOperand(...);
  cpu.IP = target; return; } break;\<close>\<close>

definition exec_Jcc :: "bool \<Rightarrow> Operand list \<Rightarrow> CPU \<Rightarrow> Program \<Rightarrow> ram \<Rightarrow> exec_result" where
  "exec_Jcc cond ops cpu program ram =
     (if cond then
        on_operand ops 0 cpu ram (\<lambda>o0.
        on_value (resolveOperand o0 cpu ram (labels program)) cpu ram (\<lambda>target.
          Return (cpu\<lparr>IP := target\<rparr>) ram))
      else Break cpu ram)"

text \<open>PUSH, POP, CALL and RET. \<^verbatim>\<open>cpu.SP -= 4\<close> and \<^verbatim>\<open>cpu.SP += 4\<close> are
  double arithmetic on the number \<^verbatim>\<open>cpu.SP\<close>, and so is \<^verbatim>\<open>cpu.IP + 1\<close>.\<close>

definition exec_PUSH :: "Operand list \<Rightarrow> CPU \<Rightarrow> Program \<Rightarrow> ram \<Rightarrow> exec_result" where
  "exec_PUSH ops cpu program ram =
     on_operand ops 0 cpu ram (\<lambda>o0.
     on_value (resolveOperand o0 cpu ram (labels program)) cpu ram (\<lambda>v.
       let cpu1 = cpu\<lparr>SP := nearest_double (SP cpu - 4)\<rparr> in
       if SP cpu1 < 0 then Throw StackOverflow cpu1 ram
       else on_value (setInt32 ram (SP cpu1) v) cpu1 ram (\<lambda>ram'. Break cpu1 ram')))"

definition exec_POP :: "Operand list \<Rightarrow> CPU \<Rightarrow> Program \<Rightarrow> ram \<Rightarrow> exec_result" where
  "exec_POP ops cpu program ram =
     (if RAM_SIZE - 4 \<le> SP cpu then Throw StackUnderflow cpu ram
      else
        on_value (getInt32 ram (SP cpu)) cpu ram (\<lambda>v.
          let cpu1 = cpu\<lparr>SP := nearest_double (SP cpu + 4)\<rparr> in
          on_operand ops 0 cpu1 ram (\<lambda>o0.
            if otype o0 = Reg then Break (reg_write cpu1 (ovalue o0) v) ram
            else Throw PopDestinationMustBeRegister cpu1 ram)))"

definition exec_CALL :: "Operand list \<Rightarrow> CPU \<Rightarrow> Program \<Rightarrow> ram \<Rightarrow> exec_result" where
  "exec_CALL ops cpu program ram =
     on_operand ops 0 cpu ram (\<lambda>o0.
     on_value (resolveOperand o0 cpu ram (labels program)) cpu ram (\<lambda>target.
       if target < 0 \<or> int (length (ast program)) \<le> target
       then Throw (CallTargetOutOfBounds target) cpu ram
       else
         let cpu1 = cpu\<lparr>SP := nearest_double (SP cpu - 4)\<rparr> in
         if SP cpu1 < 0 then Throw StackOverflowOnCall cpu1 ram
         else on_value (setInt32 ram (SP cpu1) (nearest_double (IP cpu1 + 1))) cpu1 ram (\<lambda>ram'.
           Return (cpu1\<lparr>IP := target\<rparr>) ram')))"

definition exec_RET :: "CPU \<Rightarrow> Program \<Rightarrow> ram \<Rightarrow> exec_result" where
  "exec_RET cpu program ram =
     (if RAM_SIZE - 4 \<le> SP cpu then Throw StackUnderflowOnRet cpu ram
      else
        on_value (getInt32 ram (SP cpu)) cpu ram (\<lambda>returnAddr.
          let cpu1 = cpu\<lparr>SP := nearest_double (SP cpu + 4)\<rparr> in
          if returnAddr < 0 \<or> int (length (ast program)) \<le> returnAddr
          then Throw (InvalidReturnAddress returnAddr) cpu1 ram
          else Return (cpu1\<lparr>IP := returnAddr\<rparr>) ram))"

definition exec_SYS :: "Operand list \<Rightarrow> CPU \<Rightarrow> Program \<Rightarrow> ram \<Rightarrow> onSys option \<Rightarrow> exec_result" where
  "exec_SYS ops cpu program ram hooks =
     on_operand ops 0 cpu ram (\<lambda>o0.
     on_value (resolveOperand o0 cpu ram (labels program)) cpu ram (\<lambda>syscall.
       case (case hooks of None \<Rightarrow> (None, cpu, ram) | Some h \<Rightarrow> h syscall cpu ram) of
         (Some msg, cpu1, ram1) \<Rightarrow> Throw (HookError msg) cpu1 ram1
       | (None, cpu1, ram1) \<Rightarrow>
           if syscall = 1 then Break cpu1 ram1
           else if syscall = 2 then Break cpu1 ram1
           else if syscall = 3 then Break (cpu1\<lparr>halted := True\<rparr>) ram1
           else Throw (UnknownSyscall syscall) cpu1 ram1))"

text \<open>The \<^verbatim>\<open>switch (op)\<close> of \<^verbatim>\<open>step\<close>.\<close>

definition exec :: "Instruction \<Rightarrow> CPU \<Rightarrow> Program \<Rightarrow> ram \<Rightarrow> onSys option \<Rightarrow> exec_result" where
  "exec instruction cpu program ram hooks =
     (let opc = op instruction; ops = operands instruction; f = F cpu in
      if opc = ''NOP'' then Break cpu ram
      else if opc = ''HALT'' then Return (cpu\<lparr>halted := True\<rparr>) ram
      else if opc = ''MOV'' then exec_MOV ops cpu program ram
      else if opc = ''LOAD'' then exec_LOAD ops cpu program ram
      else if opc = ''STORE'' then exec_STORE ops cpu program ram
      else if opc = ''LEA'' then exec_LEA ops cpu program ram
      else if opc = ''ADD'' then exec_ADD ops cpu program ram
      else if opc = ''SUB'' then exec_SUB ops cpu program ram
      else if opc = ''MUL'' then exec_MUL ops cpu program ram
      else if opc = ''DIV'' then exec_DIV ops cpu program ram
      else if opc = ''INC'' then exec_INC ops cpu program ram
      else if opc = ''DEC'' then exec_DEC ops cpu program ram
      else if opc = ''AND'' then exec_bitwise (AND) ops cpu program ram
      else if opc = ''OR'' then exec_bitwise (OR) ops cpu program ram
      else if opc = ''XOR'' then exec_bitwise (XOR) ops cpu program ram
      else if opc = ''NOT'' then exec_NOT ops cpu program ram
      else if opc = ''SHL'' then exec_SHL ops cpu program ram
      else if opc = ''SHR'' then exec_SHR ops cpu program ram
      else if opc = ''CMP'' then exec_CMP ops cpu program ram
      else if opc = ''JMP'' then exec_JMP ops cpu program ram
      else if opc = ''JZ'' then exec_Jcc (ZF f) ops cpu program ram
      else if opc = ''JNZ'' then exec_Jcc (\<not> ZF f) ops cpu program ram
      else if opc = ''JC'' then exec_Jcc (CF f) ops cpu program ram
      else if opc = ''JNC'' then exec_Jcc (\<not> CF f) ops cpu program ram
      else if opc = ''JN'' then exec_Jcc (NF f) ops cpu program ram
      else if opc = ''JNN'' then exec_Jcc (\<not> NF f) ops cpu program ram
      else if opc = ''JG'' then exec_Jcc (\<not> ZF f \<and> NF f = OF f) ops cpu program ram
      else if opc = ''JGE'' then exec_Jcc (NF f = OF f) ops cpu program ram
      else if opc = ''JL'' then exec_Jcc (NF f \<noteq> OF f) ops cpu program ram
      else if opc = ''JLE'' then exec_Jcc (ZF f \<or> NF f \<noteq> OF f) ops cpu program ram
      else if opc = ''PUSH'' then exec_PUSH ops cpu program ram
      else if opc = ''POP'' then exec_POP ops cpu program ram
      else if opc = ''CALL'' then exec_CALL ops cpu program ram
      else if opc = ''RET'' then exec_RET cpu program ram
      else if opc = ''SYS'' then exec_SYS ops cpu program ram hooks
      else Throw (UnimplementedInstruction opc) cpu ram)"

definition step :: "CPU \<Rightarrow> Program \<Rightarrow> ram \<Rightarrow> onSys option \<Rightarrow> outcome" where
  "step cpu program ram hooks =
     (if halted cpu then Done cpu ram
      else if IP cpu < 0 \<or> int (length (ast program)) \<le> IP cpu
        then Done (cpu\<lparr>halted := True\<rparr>) ram
      else
        let instruction = ast program ! nat (IP cpu) in
        case exec instruction cpu program ram hooks of
          Break cpu' ram' \<Rightarrow> Done (cpu'\<lparr>IP := nearest_double (IP cpu' + 1)\<rparr>) ram'
        | Return cpu' ram' \<Rightarrow> Done cpu' ram'
        | Throw e cpu' ram' \<Rightarrow> Fault (AsmError (line instruction) e) cpu' ram'
        | Unmodelled \<Rightarrow> OutsideModel)"

subsection \<open>run\<close>

record RunOpts =
  maxSteps :: "int option"
  breakpoints :: "int set option"
  onSys :: "onSys option"

text \<open>The object \<^verbatim>\<open>{ steps, halted: cpu.halted, hitBreakpoint }\<close> that \<^verbatim>\<open>run\<close>
  returns (its field \<^verbatim>\<open>halted\<close> is \<open>run_halted\<close> here, \<open>halted\<close> being the CPU's).\<close>

record RunResult =
  steps :: int
  run_halted :: bool
  hitBreakpoint :: bool

datatype run_outcome =
    Returned RunResult CPU ram
  | Raised "runtime_error AsmError" CPU ram
  | RunOutsideModel

text \<open>The \<^verbatim>\<open>while\<close> loop of \<^verbatim>\<open>run\<close>, with \<open>n\<close> the value of \<^verbatim>\<open>steps\<close>.
  The counter starts at 0, and \<^verbatim>\<open>steps++\<close> is exact as long as it is below
  \<open>2^53\<close>. There the increment is lost to rounding: \<^verbatim>\<open>steps\<close> stays at
  \<open>2^53\<close>, and a greater budget never stops the loop. The model does not follow a
  run that far (\<open>RunOutsideModel\<close>).\<close>

function run_loop :: "CPU \<Rightarrow> Program \<Rightarrow> ram \<Rightarrow> int \<Rightarrow> int set \<Rightarrow> onSys option \<Rightarrow> int \<Rightarrow> run_outcome" where
  "run_loop cpu program ram maxsteps bps hook n =
     (if \<not> halted cpu \<and> n < maxsteps then
        (if IP cpu \<in> bps
         then Returned \<lparr>steps = n, run_halted = halted cpu, hitBreakpoint = True\<rparr> cpu ram
         else (case step cpu program ram hook of
                 Done cpu' ram' \<Rightarrow>
                   if n < 2 ^ 53 then run_loop cpu' program ram' maxsteps bps hook (n + 1)
                   else RunOutsideModel
               | Fault e cpu' ram' \<Rightarrow> Raised e cpu' ram'
               | OutsideModel \<Rightarrow> RunOutsideModel))
      else Returned \<lparr>steps = n, run_halted = halted cpu, hitBreakpoint = False\<rparr> cpu ram)"
  by pat_completeness auto
termination
  by (relation "measure (\<lambda>(cpu, program, ram, maxsteps, bps, hook, n). nat (maxsteps - n))") auto

declare run_loop.simps [simp del]

definition run :: "CPU \<Rightarrow> Program \<Rightarrow> ram \<Rightarrow> RunOpts \<Rightarrow> run_outcome" where
  "run cpu program ram opts =
     run_loop cpu program ram
       (case maxSteps opts of Some m \<Rightarrow> m | None \<Rightarrow> 10000)
       (case breakpoints opts of Some b \<Rightarrow> b | None \<Rightarrow> {})
       (onSys opts) 0"

subsection \<open>Executing a number of steps\<close>

text \<open>\<open>step_n n\<close> is \<open>n\<close> calls of \<^verbatim>\<open>step\<close> in a row, each on the CPU and memory
  the one before has left, up to the first that throws: what it means to execute
  \<open>n\<close> steps. (The loop of \<^verbatim>\<open>run\<close> is \<open>run_loop\<close> above; that it executes
  the steps its counter says is a property to prove.)\<close>

fun step_n :: "nat \<Rightarrow> CPU \<Rightarrow> Program \<Rightarrow> ram \<Rightarrow> onSys option \<Rightarrow> outcome" where
  "step_n 0 cpu program ram hooks = Done cpu ram"
| "step_n (Suc n) cpu program ram hooks =
     (case step cpu program ram hooks of
        Done cpu' ram' \<Rightarrow> step_n n cpu' program ram' hooks
      | Fault e cpu' ram' \<Rightarrow> Fault e cpu' ram'
      | OutsideModel \<Rightarrow> OutsideModel)"

section \<open>The assembler\<close>

text \<open>
  Source text is a \<open>string\<close>: a JavaScript string whose code units are below 256,
  the characters of Latin-1. Of these, \<^verbatim>\<open>U+00A0\<close> is white space besides the ASCII
  ones, and \<^verbatim>\<open>toUpperCase\<close> maps the letters \<^verbatim>\<open>U+00E0\<close> to \<^verbatim>\<open>U+00FE\<close> to
  their capitals 32 below. Three characters have a capital outside Latin-1
  (\<^verbatim>\<open>U+00B5\<close>, \<^verbatim>\<open>U+00FF\<close>) or of two characters (\<^verbatim>\<open>U+00DF\<close>), which a
  \<open>string\<close> cannot hold: the model does not assemble a text that contains one of
  them (\<open>NotModelled\<close>).
\<close>

subsection \<open>Strings\<close>

text \<open>White space for \<^verbatim>\<open>trim()\<close>, \<^verbatim>\<open>\s\<close> and \<^verbatim>\<open>parseInt\<close>.\<close>

definition is_space :: "char \<Rightarrow> bool" where
  "is_space c = (c \<in> set [CHR 0x09, CHR 0x0A, CHR 0x0B, CHR 0x0C, CHR 0x0D, CHR 0x20, CHR 0xA0])"

definition trim :: "string \<Rightarrow> string" where
  "trim s = rev (dropWhile is_space (rev (dropWhile is_space s)))"

definition starts_with :: "string \<Rightarrow> string \<Rightarrow> bool" where
  "starts_with s pre = (take (length pre) s = pre)"

definition ends_with :: "string \<Rightarrow> string \<Rightarrow> bool" where
  "ends_with s suf = (length suf \<le> length s \<and> drop (length s - length suf) s = suf)"

text \<open>\<^verbatim>\<open>s.split(c)\<close> for a one-character separator.\<close>

fun split_on :: "char \<Rightarrow> string \<Rightarrow> string list" where
  "split_on c [] = [[]]"
| "split_on c (x # xs) =
     (if x = c then [] # split_on c xs
      else (case split_on c xs of [] \<Rightarrow> [[x]] | y # ys \<Rightarrow> (x # y) # ys))"

text \<open>\<^verbatim>\<open>s.split(/\s+/)\<close>: the pieces between maximal runs of white space.\<close>

function split_ws :: "string \<Rightarrow> string list" where
  "split_ws [] = [[]]"
| "split_ws (x # xs) =
     (if is_space x then [] # split_ws (dropWhile is_space xs)
      else (case split_ws xs of [] \<Rightarrow> [[x]] | y # ys \<Rightarrow> (x # y) # ys))"
  by pat_completeness auto
termination
  by (relation "measure length") (auto simp add: less_Suc_eq_le length_dropWhile_le)

text \<open>\<^verbatim>\<open>parts.join(' ')\<close>\<close>

fun join_space :: "string list \<Rightarrow> string" where
  "join_space [] = []"
| "join_space [x] = x"
| "join_space (x # y # ys) = x @ '' '' @ join_space (y # ys)"

text \<open>\<^verbatim>\<open>toUpperCase()\<close>\<close>

definition upper_char :: "char \<Rightarrow> char" where
  "upper_char c =
     (case map_of (zip ''abcdefghijklmnopqrstuvwxyz'' ''ABCDEFGHIJKLMNOPQRSTUVWXYZ'') c of
        Some u \<Rightarrow> u
      | None \<Rightarrow>
          if (0xE0 :: nat) \<le> of_char c \<and> of_char c \<le> (0xFE :: nat) \<and> c \<noteq> CHR 0xF7
          then char_of (of_char c - (32 :: nat)) else c)"

text \<open>The characters whose capital a \<open>string\<close> cannot hold.\<close>

definition no_capital :: "char list" where
  "no_capital = [CHR 0xB5, CHR 0xDF, CHR 0xFF]"

definition toUpperCase :: "string \<Rightarrow> string" where
  "toUpperCase s = map upper_char s"

definition digit_value :: "char \<Rightarrow> int option" where
  "digit_value c = map_of (zip ''0123456789'' [0, 1, 2, 3, 4, 5, 6, 7, 8, 9]) c"

definition is_digit :: "char \<Rightarrow> bool" where
  "is_digit c = (c \<in> set ''0123456789'')"

definition is_letter :: "char \<Rightarrow> bool" where
  "is_letter c = (c \<in> set ''abcdefghijklmnopqrstuvwxyzABCDEFGHIJKLMNOPQRSTUVWXYZ'')"

text \<open>\<^verbatim>\<open>parseInt(s, 10)\<close>: leading white space, an optional sign, the longest run of
  digits; \<^verbatim>\<open>NaN\<close> when there is no digit. The result is a number: the double
  nearest to the integer the digits denote. Two cases have no value in the model
  (\<open>Unrepresented\<close>): when that double is an infinity, and when a digit other than 0
  follows the twentieth significant digit, where the language leaves the result to
  the implementation.\<close>

datatype parsed = Parsed int | NaN | Unrepresented

definition parseInt :: "string \<Rightarrow> parsed" where
  "parseInt s =
     (let s1 = dropWhile is_space s;
          s2 = (if starts_with s1 ''-'' \<or> starts_with s1 ''+'' then tl s1 else s1);
          ds = takeWhile is_digit s2;
          mathInt = foldl (\<lambda>a c. 10 * a + (case digit_value c of Some d \<Rightarrow> d | None \<Rightarrow> 0)) 0 ds
      in if ds = [] then NaN
         else if \<not> list_all (\<lambda>c. c = CHR ''0'') (drop 20 (dropWhile (\<lambda>c. c = CHR ''0'') ds))
           then Unrepresented
         else (case js_number mathInt of
                 Ok v \<Rightarrow> Parsed ((if starts_with s1 ''-'' then - 1 else 1) * v)
               | Err e \<Rightarrow> Unrepresented
               | Undef \<Rightarrow> Unrepresented))"

text \<open>The regular expression \<^verbatim>\<open>/^[a-zA-Z_][a-zA-Z0-9_]*$/\<close>\<close>

definition is_label_name :: "string \<Rightarrow> bool" where
  "is_label_name s =
     (case s of
        [] \<Rightarrow> False
      | c # cs \<Rightarrow> (is_letter c \<or> c = CHR ''_'') \<and>
                 list_all (\<lambda>c. is_letter c \<or> is_digit c \<or> c = CHR ''_'') cs)"

subsection \<open>Tables\<close>

definition REGISTERS :: "string \<rightharpoonup> int" where
  "REGISTERS = map_of
     [(''R0'', 0), (''R1'', 1), (''R2'', 2), (''R3'', 3), (''R4'', 4), (''R5'', 5),
      (''R6'', 6), (''R7'', 7), (''SP'', - 1), (''BP'', - 2)]"

definition validOps :: "string list" where
  "validOps =
     [''NOP'', ''HALT'', ''MOV'', ''LOAD'', ''STORE'', ''LEA'',
      ''ADD'', ''SUB'', ''MUL'', ''DIV'', ''INC'', ''DEC'',
      ''AND'', ''OR'', ''XOR'', ''NOT'', ''SHL'', ''SHR'',
      ''CMP'', ''JMP'', ''JZ'', ''JNZ'', ''JC'', ''JNC'', ''JN'', ''JNN'',
      ''JG'', ''JGE'', ''JL'', ''JLE'', ''PUSH'', ''POP'', ''CALL'', ''RET'', ''SYS'']"

definition expectedCounts :: "string \<rightharpoonup> nat" where
  "expectedCounts = map_of
     [(''NOP'', 0), (''HALT'', 0),
      (''MOV'', 2), (''LOAD'', 2), (''STORE'', 2), (''LEA'', 2),
      (''ADD'', 2), (''SUB'', 2), (''MUL'', 2), (''DIV'', 2),
      (''AND'', 2), (''OR'', 2), (''XOR'', 2), (''SHL'', 2), (''SHR'', 2),
      (''INC'', 1), (''DEC'', 1), (''NOT'', 1),
      (''CMP'', 2), (''JMP'', 1), (''JZ'', 1), (''JNZ'', 1), (''JC'', 1), (''JNC'', 1),
      (''JN'', 1), (''JNN'', 1), (''JG'', 1), (''JGE'', 1), (''JL'', 1), (''JLE'', 1),
      (''PUSH'', 1), (''POP'', 1), (''CALL'', 1), (''RET'', 0), (''SYS'', 1)]"

text \<open>\<^verbatim>\<open>labels[name] !== undefined\<close> and \<^verbatim>\<open>name in labels\<close>: true of the names
  the table holds and of the properties inherited from \<^verbatim>\<open>Object.prototype\<close>.\<close>

definition has_key :: "(string \<rightharpoonup> int) \<Rightarrow> string \<Rightarrow> bool" where
  "has_key tbl name = (name \<in> set object_prototype_keys \<or> tbl name \<noteq> None)"

definition DATA_SECTION_SIZE :: nat where
  "DATA_SECTION_SIZE = 8192"

subsection \<open>Errors\<close>

text \<open>Every \<^verbatim>\<open>throw new AsmError(...)\<close> of the assembler, with the values its message
  interpolates (hints are not modelled).\<close>

datatype asm_message =
    EmptyOperand
  | InvalidImmediateValue string
  | EmptyMemoryReference
  | AddressOutOfBounds int
  | InvalidOperand string
  | OrgRequiresAddress
  | InvalidOrgAddress
  | WordRequiresValues
  | InvalidWordValue string
  | DataSectionOverflow
  | ByteRequiresValues
  | InvalidByteValue string
  | InvalidStringFormat
  | UnknownDirective string
  | EmptyLabelName
  | InvalidLabelName string
  | DuplicateLabel string
  | UnknownInstruction string
  | InternalAssemblerError
  | OperandCountMismatch string nat nat
  | UndefinedLabelReference string
  | UndefinedLabelInMemoryReference string

text \<open>How \<^verbatim>\<open>assemble\<close> fails: it throws an \<^verbatim>\<open>AsmError\<close>, or (\<open>NotModelled\<close>) it
  goes on with a number or a character that the model does not have, where the
  model does not follow it.\<close>

datatype asm_failure = Thrown "asm_message AsmError" | NotModelled

type_synonym 'a asm_result = "asm_failure + 'a"

definition and_then :: "'a asm_result \<Rightarrow> ('a \<Rightarrow> 'b asm_result) \<Rightarrow> 'b asm_result" where
  "and_then m f = (case m of Inl e \<Rightarrow> Inl e | Inr x \<Rightarrow> f x)"

subsection \<open>parseOperand\<close>

text \<open>The regular expression \<^verbatim>\<open>/^(R[0-7]|SP|BP)\s*([+-])\s*(\d+)$/i\<close>: the register
  name, the sign and the digits when it matches.\<close>

definition match_offset :: "string \<Rightarrow> (string \<times> char \<times> string) option" where
  "match_offset inner =
     (let name = toUpperCase (take 2 inner);
          r1 = dropWhile is_space (drop 2 inner)
      in if REGISTERS name = None then None
         else (case r1 of
                 [] \<Rightarrow> None
               | sg # r2 \<Rightarrow>
                   if sg = CHR ''+'' \<or> sg = CHR ''-'' then
                     (let ds = dropWhile is_space r2
                      in if ds \<noteq> [] \<and> list_all is_digit ds then Some (name, sg, ds) else None)
                   else None))"

definition parseOperand :: "string \<Rightarrow> (string \<rightharpoonup> int) \<Rightarrow> nat \<Rightarrow> Operand asm_result" where
  "parseOperand token0 tbl lineNum =
     (let token = trim (if ends_with token0 '','' then butlast token0 else token0) in
      if token = [] then Inl (Thrown (AsmError lineNum EmptyOperand))
      else if starts_with token ''#'' then
        (case parseInt (tl token) of
           NaN \<Rightarrow> Inl (Thrown (AsmError lineNum (InvalidImmediateValue token)))
         | Parsed v \<Rightarrow> Inr \<lparr>otype = Imm, ovalue = Num v, offset = None, indirect = False\<rparr>
         | Unrepresented \<Rightarrow> Inl NotModelled)
      else if starts_with token ''['' \<and> ends_with token '']'' then
        (let inner = trim (butlast (tl token)) in
         if inner = [] then Inl (Thrown (AsmError lineNum EmptyMemoryReference))
         else
           (case match_offset inner of
              Some (reg, sg, ds) \<Rightarrow>
                (case parseInt ds of
                   Parsed offsetValue \<Rightarrow>
                     (case REGISTERS reg of
                        Some r \<Rightarrow>
                          Inr \<lparr>otype = Mem, ovalue = Num r,
                               offset = Some (offsetValue * (if sg = CHR ''+'' then 1 else - 1)),
                               indirect = True\<rparr>
                      | None \<Rightarrow> Inl (Thrown (AsmError lineNum (InvalidOperand token))))
                 | NaN \<Rightarrow> Inl (Thrown (AsmError lineNum (InvalidOperand token)))
                 | Unrepresented \<Rightarrow> Inl NotModelled)
            | None \<Rightarrow>
                (case REGISTERS (toUpperCase inner) of
                   Some r \<Rightarrow> Inr \<lparr>otype = Mem, ovalue = Num r, offset = None, indirect = True\<rparr>
                 | None \<Rightarrow>
                     (case parseInt inner of
                        Parsed addr \<Rightarrow>
                          if addr < 0 \<or> RAM_SIZE \<le> addr
                          then Inl (Thrown (AsmError lineNum (AddressOutOfBounds addr)))
                          else Inr \<lparr>otype = Mem, ovalue = Num addr, offset = None, indirect = False\<rparr>
                      | NaN \<Rightarrow>
                          Inr \<lparr>otype = Mem, ovalue = Str inner, offset = None, indirect = False\<rparr>
                      | Unrepresented \<Rightarrow> Inl NotModelled))))
      else
        (case REGISTERS (toUpperCase token) of
           Some r \<Rightarrow> Inr \<lparr>otype = Reg, ovalue = Num r, offset = None, indirect = False\<rparr>
         | None \<Rightarrow>
             (case parseInt token of
                Parsed num \<Rightarrow> Inr \<lparr>otype = Imm, ovalue = Num num, offset = None, indirect = False\<rparr>
              | NaN \<Rightarrow>
                  if is_label_name token
                  then Inr \<lparr>otype = Label, ovalue = Str token, offset = None, indirect = False\<rparr>
                  else Inl (Thrown (AsmError lineNum (InvalidOperand token)))
              | Unrepresented \<Rightarrow> Inl NotModelled)))"

fun parseOperands :: "string list \<Rightarrow> (string \<rightharpoonup> int) \<Rightarrow> nat \<Rightarrow> Operand list asm_result" where
  "parseOperands [] tbl lineNum = Inr []"
| "parseOperands (t # ts) tbl lineNum =
     and_then (parseOperand t tbl lineNum) (\<lambda>x.
     and_then (parseOperands ts tbl lineNum) (\<lambda>xs. Inr (x # xs)))"

subsection \<open>validateInstructionOperands\<close>

definition validateInstructionOperands :: "string \<Rightarrow> Operand list \<Rightarrow> nat \<Rightarrow> unit asm_result" where
  "validateInstructionOperands opc ops lineNum =
     (case expectedCounts opc of
        None \<Rightarrow> Inl (Thrown (AsmError lineNum (UnknownInstruction opc)))
      | Some expected \<Rightarrow>
          if length ops = expected then Inr ()
          else Inl (Thrown (AsmError lineNum (OperandCountMismatch opc expected (length ops)))))"

subsection \<open>assemble, pass 1\<close>

text \<open>The local variables of \<^verbatim>\<open>assemble\<close>: the fields of the program under
  construction, and \<^verbatim>\<open>currentAddress\<close>, \<^verbatim>\<open>inDataSection\<close>, \<^verbatim>\<open>dataPtr\<close>.\<close>

record asm_state = Program +
  currentAddress :: int
  inDataSection :: bool
  dataPtr :: nat

text \<open>\<^verbatim>\<open>dataSection[dataPtr++] = b\<close>\<close>

definition emit_byte :: "8 word \<Rightarrow> asm_state \<Rightarrow> asm_state" where
  "emit_byte b st = st\<lparr>dataSection := (dataSection st)(dataPtr st := b), dataPtr := dataPtr st + 1\<rparr>"

text \<open>The loop that stores each value of a \<^verbatim>\<open>.WORD\<close> as four little-endian bytes.\<close>

fun emit_words :: "nat \<Rightarrow> int list \<Rightarrow> asm_state \<Rightarrow> asm_state asm_result" where
  "emit_words lineNum [] st = Inr st"
| "emit_words lineNum (v # vs) st =
     (if dataPtr st + 4 > DATA_SECTION_SIZE then Inl (Thrown (AsmError lineNum DataSectionOverflow))
      else emit_words lineNum vs
        (emit_byte (ucast (drop_bit 24 (word_of_int v :: 32 word)))
        (emit_byte (ucast (drop_bit 16 (word_of_int v :: 32 word)))
        (emit_byte (ucast (drop_bit 8 (word_of_int v :: 32 word)))
        (emit_byte (ucast (word_of_int v :: 32 word)) st)))))"

text \<open>The loops that store the values of a \<^verbatim>\<open>.BYTE\<close>, and the characters of a
  \<^verbatim>\<open>.STRING\<close> with its terminator, one byte each.\<close>

fun emit_bytes :: "nat \<Rightarrow> 8 word list \<Rightarrow> asm_state \<Rightarrow> asm_state asm_result" where
  "emit_bytes lineNum [] st = Inr st"
| "emit_bytes lineNum (b # bs) st =
     (if dataPtr st \<ge> DATA_SECTION_SIZE then Inl (Thrown (AsmError lineNum DataSectionOverflow))
      else emit_bytes lineNum bs (emit_byte b st))"

fun parse_word_values :: "nat \<Rightarrow> string list \<Rightarrow> int list asm_result" where
  "parse_word_values lineNum [] = Inr []"
| "parse_word_values lineNum (v # vs) =
     (case parseInt (trim v) of
        NaN \<Rightarrow> Inl (Thrown (AsmError lineNum (InvalidWordValue (trim v))))
      | Parsed num \<Rightarrow> and_then (parse_word_values lineNum vs) (\<lambda>nums. Inr (num # nums))
      | Unrepresented \<Rightarrow> Inl NotModelled)"

fun parse_byte_values :: "nat \<Rightarrow> string list \<Rightarrow> int list asm_result" where
  "parse_byte_values lineNum [] = Inr []"
| "parse_byte_values lineNum (v # vs) =
     (case parseInt (trim v) of
        NaN \<Rightarrow> Inl (Thrown (AsmError lineNum (InvalidByteValue (trim v))))
      | Parsed num \<Rightarrow>
          if num < 0 \<or> num > 255 then Inl (Thrown (AsmError lineNum (InvalidByteValue (trim v))))
          else and_then (parse_byte_values lineNum vs) (\<lambda>nums. Inr (num # nums))
      | Unrepresented \<Rightarrow> Inl NotModelled)"

text \<open>The body shared by the \<^verbatim>\<open>.WORD\<close> directive and by \<^verbatim>\<open>label: .WORD ...\<close>.\<close>

definition word_directive :: "nat \<Rightarrow> string list \<Rightarrow> asm_state \<Rightarrow> asm_state asm_result" where
  "word_directive lineNum parts st =
     (if length parts < 2 then Inl (Thrown (AsmError lineNum WordRequiresValues))
      else and_then (parse_word_values lineNum (split_on (CHR '','') (join_space (tl parts))))
             (\<lambda>vals. emit_words lineNum vals st))"

definition byte_directive :: "nat \<Rightarrow> string list \<Rightarrow> asm_state \<Rightarrow> asm_state asm_result" where
  "byte_directive lineNum parts st =
     (if length parts < 2 then Inl (Thrown (AsmError lineNum ByteRequiresValues))
      else and_then (parse_byte_values lineNum (split_on (CHR '','') (join_space (tl parts))))
             (\<lambda>vals. emit_bytes lineNum (map word_of_int vals) st))"

text \<open>\<^verbatim>\<open>trimmed.match(/\.STRING\s+"([^"]*)"/i)\<close>: the first place where the pattern
  matches, and the text between the quotes.\<close>

definition match_string_here :: "string \<Rightarrow> string option" where
  "match_string_here s =
     (if toUpperCase (take 7 s) = ''.STRING'' then
        (let r = drop 7 s; r1 = dropWhile is_space r in
         if length r1 < length r then
           (case r1 of
              [] \<Rightarrow> None
            | q # r2 \<Rightarrow>
                if q = CHR 0x22 \<and> dropWhile (\<lambda>c. c \<noteq> CHR 0x22) r2 \<noteq> []
                then Some (takeWhile (\<lambda>c. c \<noteq> CHR 0x22) r2) else None)
         else None)
      else None)"

fun match_string :: "string \<Rightarrow> string option" where
  "match_string [] = None"
| "match_string (c # cs) =
     (case match_string_here (c # cs) of Some str \<Rightarrow> Some str | None \<Rightarrow> match_string cs)"

definition string_directive :: "nat \<Rightarrow> string \<Rightarrow> asm_state \<Rightarrow> asm_state asm_result" where
  "string_directive lineNum trimmed st =
     (case match_string trimmed of
        None \<Rightarrow> Inl (Thrown (AsmError lineNum InvalidStringFormat))
      | Some str \<Rightarrow> emit_bytes lineNum (map of_char str @ [0]) st)"

text \<open>\<^verbatim>\<open>s.split(/\s+/)[0]\<close>\<close>

definition first_token :: "string \<Rightarrow> string" where
  "first_token s = (case split_ws s of [] \<Rightarrow> [] | t # ts \<Rightarrow> t)"

definition pass1_directive :: "nat \<Rightarrow> string \<Rightarrow> asm_state \<Rightarrow> asm_state asm_result" where
  "pass1_directive lineNum trimmed st =
     (let parts = split_ws trimmed; directive = toUpperCase (first_token trimmed) in
      if directive = ''.DATA'' then Inr (st\<lparr>inDataSection := True\<rparr>)
      else if directive = ''.TEXT''
        then Inr (st\<lparr>textStart := currentAddress st, inDataSection := False\<rparr>)
      else if directive = ''.ORG'' then
        (if length parts < 2 then Inl (Thrown (AsmError lineNum OrgRequiresAddress))
         else (case parseInt (parts ! 1) of
                 NaN \<Rightarrow> Inl (Thrown (AsmError lineNum InvalidOrgAddress))
               | Parsed orgAddr \<Rightarrow>
                   if orgAddr < 0 then Inl (Thrown (AsmError lineNum InvalidOrgAddress))
                   else Inr (st\<lparr>currentAddress := orgAddr\<rparr>)
               | Unrepresented \<Rightarrow> Inl NotModelled))
      else if directive = ''.WORD''
        then (if inDataSection st then word_directive lineNum parts st else Inr st)
      else if directive = ''.BYTE''
        then (if inDataSection st then byte_directive lineNum parts st else Inr st)
      else if directive = ''.STRING''
        then (if inDataSection st then string_directive lineNum trimmed st else Inr st)
      else Inl (Thrown (AsmError lineNum (UnknownDirective directive))))"

text \<open>\<^verbatim>\<open>ast.push({ op, operands: [], line: lineNum, source }); currentAddress++\<close>,
  the increment on the number \<^verbatim>\<open>currentAddress\<close>, which an \<^verbatim>\<open>.ORG\<close> may have
  set to any double that is not negative.\<close>

definition push_instruction :: "string \<Rightarrow> nat \<Rightarrow> string \<Rightarrow> asm_state \<Rightarrow> asm_state" where
  "push_instruction opc lineNum src st =
     st\<lparr>ast := ast st @ [\<lparr>op = opc, operands = [], line = lineNum, source = src\<rparr>],
        currentAddress := nearest_double (currentAddress st + 1)\<rparr>"

definition pass1_label :: "nat \<Rightarrow> string \<Rightarrow> asm_state \<Rightarrow> asm_state asm_result" where
  "pass1_label lineNum trimmed st =
     (let labelName = trim (takeWhile (\<lambda>c. c \<noteq> CHR '':'') trimmed);
          afterColon = trim (tl (dropWhile (\<lambda>c. c \<noteq> CHR '':'') trimmed))
      in
      if labelName = [] then Inl (Thrown (AsmError lineNum EmptyLabelName))
      else if \<not> is_label_name labelName then Inl (Thrown (AsmError lineNum (InvalidLabelName labelName)))
      else if has_key (labels st) labelName then Inl (Thrown (AsmError lineNum (DuplicateLabel labelName)))
      else
        (let st1 = st\<lparr>labels := (labels st)(labelName \<mapsto>
                     (if inDataSection st then int (dataPtr st) else currentAddress st))\<rparr>
         in
         if afterColon \<noteq> [] \<and> \<not> starts_with afterColon '';'' \<and> \<not> starts_with afterColon ''//''
         then
           (if starts_with afterColon ''.WORD''
              then word_directive lineNum (split_ws afterColon) st1
            else if \<not> inDataSection st1
              then Inr (push_instruction (toUpperCase (first_token afterColon)) lineNum afterColon st1)
            else Inr st1)
         else Inr st1))"

definition pass1_line :: "nat \<Rightarrow> string \<Rightarrow> asm_state \<Rightarrow> asm_state asm_result" where
  "pass1_line lineNum ln st =
     (let trimmed = trim ln in
      if trimmed = [] \<or> starts_with trimmed '';'' \<or> starts_with trimmed ''//'' then Inr st
      else if starts_with trimmed ''.'' then pass1_directive lineNum trimmed st
      else if CHR '':'' \<in> set trimmed then pass1_label lineNum trimmed st
      else if \<not> inDataSection st then
        (let opc = toUpperCase (first_token trimmed) in
         if opc \<in> set validOps then Inr (push_instruction opc lineNum trimmed st)
         else Inl (Thrown (AsmError lineNum (UnknownInstruction opc))))
      else Inr st)"

text \<open>The loop \<^verbatim>\<open>for (let i = 0; i < lines.length; i++)\<close> of pass 1, from index \<open>i\<close>
  on; the line number is \<open>i + 1\<close>.\<close>

fun pass1 :: "nat \<Rightarrow> string list \<Rightarrow> asm_state \<Rightarrow> asm_state asm_result" where
  "pass1 i [] st = Inr st"
| "pass1 i (ln # lns) st = and_then (pass1_line (i + 1) ln st) (\<lambda>st'. pass1 (i + 1) lns st')"

subsection \<open>assemble, pass 2\<close>

definition pass2_line :: "nat \<Rightarrow> string \<Rightarrow> (string \<rightharpoonup> int) \<Rightarrow> Instruction list \<times> nat \<Rightarrow>
    (Instruction list \<times> nat) asm_result" where
  "pass2_line lineNum ln tbl acc =
     (let instrs = fst acc; astIndex = snd acc; trimmed = trim ln;
          hasColon = (CHR '':'' \<in> set trimmed);
          afterColon = trim (tl (dropWhile (\<lambda>c. c \<noteq> CHR '':'') trimmed))
      in
      if trimmed = [] \<or> starts_with trimmed '';'' \<or> starts_with trimmed ''//'' \<or>
         starts_with trimmed ''.'' then Inr acc
      else if hasColon \<and>
              (afterColon = [] \<or> starts_with afterColon '';'' \<or> starts_with afterColon ''//'')
        then Inr acc
      else
        (let instructionPart = (if hasColon then afterColon else trimmed);
             tokens = split_ws instructionPart;
             opc = toUpperCase (first_token instructionPart)
         in
         if astIndex \<ge> length instrs then Inl (Thrown (AsmError lineNum InternalAssemblerError))
         else
           and_then
             (if length tokens > 1
              then parseOperands
                     (filter (\<lambda>t. t \<noteq> []) (map trim (split_on (CHR '','') (join_space (tl tokens)))))
                     tbl lineNum
              else Inr []) (\<lambda>ops.
           and_then (validateInstructionOperands opc ops lineNum) (\<lambda>u.
             Inr (instrs[astIndex := (instrs ! astIndex)\<lparr>operands := ops\<rparr>], astIndex + 1)))))"

fun pass2 :: "nat \<Rightarrow> string list \<Rightarrow> (string \<rightharpoonup> int) \<Rightarrow> Instruction list \<times> nat \<Rightarrow>
    (Instruction list \<times> nat) asm_result" where
  "pass2 i [] tbl acc = Inr acc"
| "pass2 i (ln # lns) tbl acc =
     and_then (pass2_line (i + 1) ln tbl acc) (\<lambda>acc'. pass2 (i + 1) lns tbl acc')"

text \<open>The final loop: every label an operand refers to must be a key of the table. (A
  \<open>Label\<close> operand always carries a name; the numeric case cannot come out of
  \<open>parseOperand\<close>.)\<close>

definition check_operand :: "(string \<rightharpoonup> int) \<Rightarrow> nat \<Rightarrow> Operand \<Rightarrow> unit asm_result" where
  "check_operand tbl lineNum x =
     (case ovalue x of
        Str name \<Rightarrow>
          if otype x = Label \<and> \<not> has_key tbl name
            then Inl (Thrown (AsmError lineNum (UndefinedLabelReference name)))
          else if otype x = Mem \<and> \<not> has_key tbl name
            then Inl (Thrown (AsmError lineNum (UndefinedLabelInMemoryReference name)))
          else Inr ()
      | Num n \<Rightarrow>
          if otype x = Label then Inl (Thrown (AsmError lineNum (UndefinedLabelReference [])))
          else Inr ())"

fun check_operands :: "(string \<rightharpoonup> int) \<Rightarrow> nat \<Rightarrow> Operand list \<Rightarrow> unit asm_result" where
  "check_operands tbl lineNum [] = Inr ()"
| "check_operands tbl lineNum (x # xs) =
     and_then (check_operand tbl lineNum x) (\<lambda>u. check_operands tbl lineNum xs)"

fun check_labels :: "(string \<rightharpoonup> int) \<Rightarrow> Instruction list \<Rightarrow> unit asm_result" where
  "check_labels tbl [] = Inr ()"
| "check_labels tbl (ins # inss) =
     and_then (check_operands tbl (line ins) (operands ins)) (\<lambda>u. check_labels tbl inss)"

definition initial_state :: "string list \<Rightarrow> asm_state" where
  "initial_state lns =
     \<lparr>lines = lns, ast = [], labels = Map.empty, dataSection = (\<lambda>_. 0), textStart = 0,
      currentAddress = 0, inDataSection = False, dataPtr = 0\<rparr>"

definition assemble :: "string \<Rightarrow> Program asm_result" where
  "assemble src =
     (if list_ex (\<lambda>c. c \<in> set no_capital) src then Inl NotModelled
      else
        let lns = split_on (CHR 0x0A) src in
        and_then (pass1 0 lns (initial_state lns)) (\<lambda>st.
        and_then (pass2 0 lns (labels st) (ast st, 0)) (\<lambda>acc.
        and_then (check_labels (labels st) (fst acc)) (\<lambda>u.
          Inr \<lparr>lines = lines st, ast = fst acc, labels = labels st,
               dataSection = dataSection st, textStart = textStart st\<rparr>))))"

subsection \<open>Notions for the label table\<close>

text \<open>The words in which the properties of the label table are stated, read off the
  source lines.

  \<^item> \<open>defines_label ln\<close> is the name a line defines as a label: the text before the
    first colon of a line that is neither blank, a comment nor a directive.
  \<^item> \<open>is_data_line\<close>, \<open>is_text_line\<close> and \<open>is_org_line\<close> recognise the directives
    \<^verbatim>\<open>.DATA\<close>, \<^verbatim>\<open>.TEXT\<close> and \<^verbatim>\<open>.ORG\<close>; \<open>org_operand\<close> reads the address of
    an \<^verbatim>\<open>.ORG\<close>.
  \<^item> A line is in a \<^verbatim>\<open>.DATA\<close> region when a \<^verbatim>\<open>.DATA\<close> directive precedes it and
    no \<^verbatim>\<open>.TEXT\<close> directive lies between the last such directive and the line;
    otherwise it is in a \<^verbatim>\<open>.TEXT\<close> region, as every line is before the first
    directive. \<open>in_data_region pre\<close> says so of the line that follows the lines
    \<open>pre\<close>.
  \<^item> \<open>counted a k\<close> is the value of a counter that starts at \<open>a\<close> after \<open>k\<close>
    increments \<^verbatim>\<open>++\<close>: it is \<open>a + k\<close> as long as that is at most \<open>2^53\<close>, and
    stays at the double it has reached once adding 1 is lost to rounding.
  \<^item> \<open>line_data\<close> is the datum of a line, as bytes: the values of a \<^verbatim>\<open>.WORD\<close>,
    four bytes each with the least significant first, those of a \<^verbatim>\<open>.BYTE\<close>, the
    characters of a \<^verbatim>\<open>.STRING\<close> and a final 0, for a directive in a \<^verbatim>\<open>.DATA\<close>
    region; the values of a \<^verbatim>\<open>.WORD\<close> that follows a label on its line; nothing
    for any other line. \<open>data_image\<close> is the data of a list of lines, one datum
    after the other.
  \<^item> \<open>data_extends st st'\<close> says that from \<open>st\<close> to \<open>st'\<close> the data cursor has only
    advanced, the bytes below the old cursor are unchanged, and the bytes from the
    cursor on are still zero in \<open>st'\<close> if they were in \<open>st\<close>; \<open>only_data_emitted\<close>
    that nothing but the data buffer changed.\<close>

definition defines_label :: "string \<Rightarrow> string option" where
  "defines_label ln =
     (let trimmed = trim ln in
      if trimmed = [] \<or> starts_with trimmed '';'' \<or> starts_with trimmed ''//'' \<or>
         starts_with trimmed ''.'' then None
      else if CHR '':'' \<in> set trimmed
        then Some (trim (takeWhile (\<lambda>c. c \<noteq> CHR '':'') trimmed))
      else None)"

definition is_org_line :: "string \<Rightarrow> bool" where
  "is_org_line ln =
     (starts_with (trim ln) ''.'' \<and> toUpperCase (first_token (trim ln)) = ''.ORG'')"

definition is_data_line :: "string \<Rightarrow> bool" where
  "is_data_line ln =
     (starts_with (trim ln) ''.'' \<and> toUpperCase (first_token (trim ln)) = ''.DATA'')"

definition is_text_line :: "string \<Rightarrow> bool" where
  "is_text_line ln =
     (starts_with (trim ln) ''.'' \<and> toUpperCase (first_token (trim ln)) = ''.TEXT'')"

definition next_region :: "bool \<Rightarrow> string \<Rightarrow> bool" where
  "next_region inData ln =
     (if is_data_line ln then True else if is_text_line ln then False else inData)"

definition in_data_region :: "string list \<Rightarrow> bool" where
  "in_data_region pre = foldl next_region False pre"

definition org_operand :: "string \<Rightarrow> parsed" where
  "org_operand ln =
     (let parts = split_ws (trim ln) in if length parts < 2 then NaN else parseInt (parts ! 1))"

definition counted :: "int \<Rightarrow> nat \<Rightarrow> int" where
  "counted a k = ((\<lambda>x. nearest_double (x + 1)) ^^ k) a"

definition word_bytes :: "int \<Rightarrow> 8 word list" where
  "word_bytes v =
     (let w = (word_of_int v :: 32 word) in
      [ucast w, ucast (drop_bit 8 w), ucast (drop_bit 16 w), ucast (drop_bit 24 w)])"

definition values_of :: "int list asm_result \<Rightarrow> int list" where
  "values_of r = (case r of Inl e \<Rightarrow> [] | Inr vals \<Rightarrow> vals)"

definition word_data :: "string list \<Rightarrow> 8 word list" where
  "word_data parts =
     concat (map word_bytes
       (values_of (parse_word_values 0 (split_on (CHR '','') (join_space (tl parts))))))"

definition byte_data :: "string list \<Rightarrow> 8 word list" where
  "byte_data parts =
     map word_of_int (values_of (parse_byte_values 0 (split_on (CHR '','') (join_space (tl parts)))))"

definition string_data :: "string \<Rightarrow> 8 word list" where
  "string_data trimmed =
     (case match_string trimmed of None \<Rightarrow> [] | Some str \<Rightarrow> map of_char str @ [0])"

definition line_data :: "bool \<Rightarrow> string \<Rightarrow> 8 word list" where
  "line_data inData ln =
     (let trimmed = trim ln; directive = toUpperCase (first_token trimmed);
          afterColon = trim (tl (dropWhile (\<lambda>c. c \<noteq> CHR '':'') trimmed))
      in
      if trimmed = [] \<or> starts_with trimmed '';'' \<or> starts_with trimmed ''//'' then []
      else if starts_with trimmed ''.'' then
        (if \<not> inData then []
         else if directive = ''.WORD'' then word_data (split_ws trimmed)
         else if directive = ''.BYTE'' then byte_data (split_ws trimmed)
         else if directive = ''.STRING'' then string_data trimmed
         else [])
      else if CHR '':'' \<in> set trimmed \<and> starts_with afterColon ''.WORD''
        then word_data (split_ws afterColon)
      else [])"

fun data_image :: "bool \<Rightarrow> string list \<Rightarrow> 8 word list" where
  "data_image inData [] = []"
| "data_image inData (ln # lns) = line_data inData ln @ data_image (next_region inData ln) lns"

definition data_extends :: "asm_state \<Rightarrow> asm_state \<Rightarrow> bool" where
  "data_extends st st' =
     (dataPtr st \<le> dataPtr st' \<and>
      (\<forall>k<dataPtr st. dataSection st' k = dataSection st k) \<and>
      ((\<forall>k\<ge>dataPtr st. dataSection st k = 0) \<longrightarrow> (\<forall>k\<ge>dataPtr st'. dataSection st' k = 0)))"

definition only_data_emitted :: "asm_state \<Rightarrow> asm_state \<Rightarrow> bool" where
  "only_data_emitted st st' =
     (labels st' = labels st \<and> ast st' = ast st \<and> currentAddress st' = currentAddress st \<and>
      inDataSection st' = inDataSection st \<and> data_extends st st')"

text \<open>\<open>stored st bs st'\<close>: from \<open>st\<close> to \<open>st'\<close> the bytes \<open>bs\<close> have been stored in
  the data buffer from the data cursor of \<open>st\<close> on, in this order, the cursor has
  advanced past them, and the bytes below the old cursor are unchanged.\<close>

definition stored :: "asm_state \<Rightarrow> 8 word list \<Rightarrow> asm_state \<Rightarrow> bool" where
  "stored st bs st' =
     (dataPtr st' = dataPtr st + length bs \<and>
      (\<forall>i<length bs. dataSection st' (dataPtr st + i) = bs ! i) \<and>
      (\<forall>k<dataPtr st. dataSection st' k = dataSection st k))"

section \<open>Example programs\<close>

text \<open>The operands \<^verbatim>\<open>parseOperand\<close> builds for a register name, for an immediate
  and for a label (\<^verbatim>\<open>{ type: 'reg', value: REGISTERS[name] }\<close>,
  \<^verbatim>\<open>{ type: 'imm', value }\<close>, \<^verbatim>\<open>{ type: 'label', value: token }\<close>), and programs
  given by their instructions and label table. Each example below is a source text
  together with the instructions and labels \<open>assemble\<close> produces for it (lemma
  \<open>assemble_examples\<close>); \<open>step\<close> and \<open>run\<close> read nothing else of a program.\<close>

definition reg_operand :: "int \<Rightarrow> Operand" where
  "reg_operand i = \<lparr>otype = Reg, ovalue = Num i, offset = None, indirect = False\<rparr>"

definition imm_operand :: "int \<Rightarrow> Operand" where
  "imm_operand v = \<lparr>otype = Imm, ovalue = Num v, offset = None, indirect = False\<rparr>"

definition label_operand :: "string \<Rightarrow> Operand" where
  "label_operand l = \<lparr>otype = Label, ovalue = Str l, offset = None, indirect = False\<rparr>"

definition instr :: "string \<Rightarrow> Operand list \<Rightarrow> nat \<Rightarrow> string \<Rightarrow> Instruction" where
  "instr opc ops l src = \<lparr>op = opc, operands = ops, line = l, source = src\<rparr>"

definition program_of :: "Instruction list \<Rightarrow> (string \<rightharpoonup> int) \<Rightarrow> Program" where
  "program_of is tbl =
     \<lparr>lines = [], ast = is, labels = tbl, dataSection = (\<lambda>_. 0), textStart = 0\<rparr>"

definition no_opts :: "int \<Rightarrow> RunOpts" where
  "no_opts n = \<lparr>maxSteps = Some n, breakpoints = None, onSys = None\<rparr>"

text \<open>A source text from its lines.\<close>

definition source_of :: "string list \<Rightarrow> string" where
  "source_of lns = concat (case lns of [] \<Rightarrow> [] | l # ls \<Rightarrow> l # map (\<lambda>x. CHR 0x0A # x) ls)"

definition overflow_source :: string where
  "overflow_source = source_of [''MOV R0,#2147483647'', ''ADD R0,#1'']"

definition overflow_program :: Program where
  "overflow_program = program_of
     [instr ''MOV'' [reg_operand 0, imm_operand 2147483647] 1 ''MOV R0,#2147483647'',
      instr ''ADD'' [reg_operand 0, imm_operand 1] 2 ''ADD R0,#1''] Map.empty"

definition shl_source :: string where
  "shl_source = source_of [''MOV R0,#-2147483648'', ''SHL R0,#1'']"

definition shl_program :: Program where
  "shl_program = program_of
     [instr ''MOV'' [reg_operand 0, imm_operand (- 2147483648)] 1 ''MOV R0,#-2147483648'',
      instr ''SHL'' [reg_operand 0, imm_operand 1] 2 ''SHL R0,#1''] Map.empty"

definition shr_source :: string where
  "shr_source = source_of [''MOV R0,#-8'', ''SHR R0,#1'']"

definition shr_program :: Program where
  "shr_program = program_of
     [instr ''MOV'' [reg_operand 0, imm_operand (- 8)] 1 ''MOV R0,#-8'',
      instr ''SHR'' [reg_operand 0, imm_operand 1] 2 ''SHR R0,#1''] Map.empty"

definition mul_source :: string where
  "mul_source = source_of [''MOV R0,#65536'', ''MUL R0,#65536'']"

definition mul_program :: Program where
  "mul_program = program_of
     [instr ''MOV'' [reg_operand 0, imm_operand 65536] 1 ''MOV R0,#65536'',
      instr ''MUL'' [reg_operand 0, imm_operand 65536] 2 ''MUL R0,#65536''] Map.empty"

definition jnz_source :: string where
  "jnz_source = source_of [''JNZ 99'']"

definition jnz_program :: Program where
  "jnz_program = program_of [instr ''JNZ'' [imm_operand 99] 1 ''JNZ 99''] Map.empty"

definition div_source :: string where
  "div_source = source_of [''MOV R0,#1'', ''MOV R1,#0'', ''DIV R0,R1'']"

definition div_program :: Program where
  "div_program = program_of
     [instr ''MOV'' [reg_operand 0, imm_operand 1] 1 ''MOV R0,#1'',
      instr ''MOV'' [reg_operand 1, imm_operand 0] 2 ''MOV R1,#0'',
      instr ''DIV'' [reg_operand 0, reg_operand 1] 3 ''DIV R0,R1''] Map.empty"

definition loop_source :: string where
  "loop_source = source_of [''loop: JMP loop'']"

definition loop_program :: Program where
  "loop_program = program_of [instr ''JMP'' [label_operand ''loop''] 1 ''JMP loop'']
     [''loop'' \<mapsto> 0]"

definition push_source :: string where
  "push_source = source_of [''PUSH R0'']"

definition push_program :: Program where
  "push_program = program_of [instr ''PUSH'' [reg_operand 0] 1 ''PUSH R0''] Map.empty"

definition call_source :: string where
  "call_source = source_of [''CALL 0'']"

definition call_program :: Program where
  "call_program = program_of [instr ''CALL'' [imm_operand 0] 1 ''CALL 0''] Map.empty"

definition count_source :: string where
  "count_source = source_of [''loop: INC R0'', ''JMP loop'']"

definition count_program :: Program where
  "count_program = program_of
     [instr ''INC'' [reg_operand 0] 1 ''INC R0'', instr ''JMP'' [label_operand ''loop''] 2 ''JMP loop'']
     [''loop'' \<mapsto> 0]"

definition push_pop_source :: string where
  "push_pop_source = source_of [''PUSH R0'', ''PUSH SP'', ''PUSH BP'', ''POP R1'', ''POP R2'', ''POP BP'']"

definition push_pop_program :: Program where
  "push_pop_program = program_of
     [instr ''PUSH'' [reg_operand 0] 1 ''PUSH R0'', instr ''PUSH'' [reg_operand (- 1)] 2 ''PUSH SP'',
      instr ''PUSH'' [reg_operand (- 2)] 3 ''PUSH BP'', instr ''POP'' [reg_operand 1] 4 ''POP R1'',
      instr ''POP'' [reg_operand 2] 5 ''POP R2'', instr ''POP'' [reg_operand (- 2)] 6 ''POP BP'']
     Map.empty"

definition push_pop_sp_source :: string where
  "push_pop_sp_source = source_of [''PUSH R0'', ''POP SP'']"

definition push_pop_sp_program :: Program where
  "push_pop_sp_program = program_of
     [instr ''PUSH'' [reg_operand 0] 1 ''PUSH R0'', instr ''POP'' [reg_operand (- 1)] 2 ''POP SP'']
     Map.empty"

text \<open>Source texts for the label table.\<close>

definition org_source :: string where
  "org_source = source_of [''.TEXT'', ''.ORG 5'', ''L:'', ''HALT'']"

definition jump_back_source :: string where
  "jump_back_source = source_of [''MOV R0, #1'', ''back:'', ''JMP back'']"

definition data_source :: string where
  "data_source = source_of [''NOP'', ''.DATA'', ''.WORD 7'', ''x:'', ''.BYTE 9'', ''.TEXT'', ''HALT'']"

definition far_org_source :: string where
  "far_org_source = source_of [''.ORG 9007199254740992'', ''NOP'', ''far:'', ''HALT'']"

text \<open>Blocks of PUSH and POP instructions on registers, for the stack-balance property:
  \<open>is_reg_instr ins opc r\<close> says that \<open>ins\<close> has opcode \<open>opc\<close> and the register
  with index \<open>r\<close> as its first operand; \<open>block_at P k opc regs\<close> that the instructions
  of \<open>P\<close> from index \<open>k\<close> on are \<open>opc\<close> on the registers \<open>regs\<close>, in this order.
  \<open>is_register r\<close> says that \<open>r\<close> is the index of a register: 0 to 7 for R0 to R7,
  \<open>-1\<close> for SP and \<open>-2\<close> for BP, as in the table \<open>REGISTERS\<close>, and \<open>reg_value cpu r\<close>
  is the content of that register. \<open>pushed_value cpu regs i\<close> is the number that PUSH
  number \<open>i\<close> (from 0) of a block of PUSHes on \<open>regs\<close> started on \<open>cpu\<close> hands to the
  memory: the content of its register then, when SP has been lowered by 4 for each PUSH
  before it. \<open>int32\<close> is the value the memory keeps of a number, its low 32 bits read as a
  signed integer.\<close>

definition is_register :: "int \<Rightarrow> bool" where
  "is_register r = (r = - 1 \<or> r = - 2 \<or> (0 \<le> r \<and> r < 8))"

definition int32 :: "int \<Rightarrow> int" where
  "int32 v = sint (word_of_int v :: 32 word)"

definition reg_value :: "CPU \<Rightarrow> int \<Rightarrow> int" where
  "reg_value cpu r =
     (if r = - 1 then SP cpu else if r = - 2 then BP cpu else sint (R cpu ! nat r))"

definition pushed_value :: "CPU \<Rightarrow> int list \<Rightarrow> nat \<Rightarrow> int" where
  "pushed_value cpu regs i = reg_value (cpu\<lparr>SP := SP cpu - 4 * int i\<rparr>) (regs ! i)"

definition is_reg_instr :: "Instruction \<Rightarrow> string \<Rightarrow> int \<Rightarrow> bool" where
  "is_reg_instr ins opc r =
     (op ins = opc \<and>
      (case operands ins of [] \<Rightarrow> False | x # xs \<Rightarrow> otype x = Reg \<and> ovalue x = Num r))"

definition block_at :: "Program \<Rightarrow> nat \<Rightarrow> string \<Rightarrow> int list \<Rightarrow> bool" where
  "block_at P k opc regs =
     (k + length regs \<le> length (ast P) \<and>
      list_all2 (\<lambda>ins r. is_reg_instr ins opc r) (take (length regs) (drop k (ast P))) regs)"

section \<open>Properties of the execution engine\<close>

subsection \<open>Auxiliary facts\<close>

lemma assemble_examples:
  "(case assemble overflow_source of Inl e \<Rightarrow> False
    | Inr p \<Rightarrow> ast p = ast overflow_program)"
  "(case assemble shl_source of Inl e \<Rightarrow> False
    | Inr p \<Rightarrow> ast p = ast shl_program)"
  "(case assemble shr_source of Inl e \<Rightarrow> False
    | Inr p \<Rightarrow> ast p = ast shr_program)"
  "(case assemble mul_source of Inl e \<Rightarrow> False
    | Inr p \<Rightarrow> ast p = ast mul_program)"
  "(case assemble jnz_source of Inl e \<Rightarrow> False
    | Inr p \<Rightarrow> ast p = ast jnz_program)"
  "(case assemble div_source of Inl e \<Rightarrow> False
    | Inr p \<Rightarrow> ast p = ast div_program)"
  "(case assemble loop_source of Inl e \<Rightarrow> False
    | Inr p \<Rightarrow> ast p = ast loop_program \<and> labels p ''loop'' = labels loop_program ''loop'')"
  "(case assemble count_source of Inl e \<Rightarrow> False
    | Inr p \<Rightarrow> ast p = ast count_program \<and> labels p ''loop'' = labels count_program ''loop'')"
  "(case assemble push_source of Inl e \<Rightarrow> False
    | Inr p \<Rightarrow> ast p = ast push_program)"
  "(case assemble call_source of Inl e \<Rightarrow> False
    | Inr p \<Rightarrow> ast p = ast call_program)"
  "(case assemble push_pop_source of Inl e \<Rightarrow> False
    | Inr p \<Rightarrow> ast p = ast push_pop_program)"
  "(case assemble push_pop_sp_source of Inl e \<Rightarrow> False
    | Inr p \<Rightarrow> ast p = ast push_pop_sp_program)"
  by code_simp+

text \<open>Rounding to the nearest double: integers up to \<open>2^53\<close> in magnitude are doubles,
  and a greater one has a nearest double that is at least \<open>2^53\<close> in magnitude.\<close>

lemma excess_bits_small: "k < 2 ^ 53 \<Longrightarrow> excess_bits k = 0"
  by (simp add: excess_bits.simps)

lemma excess_bits_bounds:
  "k div 2 ^ excess_bits k < 2 ^ 53 \<and>
   (2 ^ 53 \<le> k \<longrightarrow> 0 < excess_bits k \<and> 2 ^ 52 \<le> k div 2 ^ excess_bits k)"
proof (induction k rule: excess_bits.induct)
  case (1 k)
  show ?case
  proof (cases "k < 2 ^ 53")
    case True
    then show ?thesis by (simp add: excess_bits.simps)
  next
    case False
    then have e: "excess_bits k = Suc (excess_bits (k div 2))" by (simp add: excess_bits.simps)
    have d: "k div 2 ^ Suc n = (k div 2) div 2 ^ n" for n
      by (simp add: zdiv_zmult2_eq)
    from 1 False have IH: "(k div 2) div 2 ^ excess_bits (k div 2) < 2 ^ 53"
      "2 ^ 53 \<le> k div 2 \<longrightarrow> 2 ^ 52 \<le> (k div 2) div 2 ^ excess_bits (k div 2)"
      by simp_all
    show ?thesis
    proof (cases "2 ^ 53 \<le> k div 2")
      case True
      then show ?thesis using IH e d by simp
    next
      case small: False
      then have "excess_bits (k div 2) = 0" by (simp add: excess_bits.simps)
      moreover have "2 ^ 52 \<le> k div 2" using False by simp
      ultimately show ?thesis using e d small by simp
    qed
  qed
qed

lemma nearest_double_exact:
  assumes "\<bar>k\<bar> \<le> 2 ^ 53"
  shows "nearest_double k = k"
proof (cases "\<bar>k\<bar> < 2 ^ 53")
  case True
  then have "excess_bits \<bar>k\<bar> = 0" by (rule excess_bits_small)
  then show ?thesis by (simp add: nearest_double_def Let_def mult_sgn_abs)
next
  case False
  then have k: "\<bar>k\<bar> = 2 ^ 53" using assms by simp
  have "excess_bits \<bar>k\<bar> = 1"
    unfolding k by (simp add: excess_bits.simps)
  moreover have "sgn k * 2 ^ 53 = k" using mult_sgn_abs [of k] k by simp
  ultimately show ?thesis using k
    by (simp add: nearest_double_def Let_def)
qed

lemma nearest_double_large:
  assumes "2 ^ 53 \<le> \<bar>k\<bar>"
  shows "2 ^ 53 \<le> \<bar>nearest_double k\<bar>"
proof -
  define e where "e = excess_bits \<bar>k\<bar>"
  define q where "q = \<bar>k\<bar> div 2 ^ e"
  define m where "m = (if 2 ^ e < 2 * (\<bar>k\<bar> mod 2 ^ e) \<or> (2 * (\<bar>k\<bar> mod 2 ^ e) = 2 ^ e \<and> odd q)
                       then q + 1 else q)"
  have e0: "0 < e" and q: "2 ^ 52 \<le> q"
    using excess_bits_bounds [of "\<bar>k\<bar>"] assms by (simp_all add: e_def q_def)
  have m: "nearest_double k = sgn k * m * 2 ^ e"
    by (simp add: nearest_double_def Let_def e_def q_def m_def)
  have mq: "q \<le> m" by (simp add: m_def)
  have k0: "k \<noteq> 0" using assms by auto
  have "\<bar>nearest_double k\<bar> = m * 2 ^ e"
    using m mq q k0 by (simp add: abs_mult abs_sgn_eq)
  moreover have "(2::int) ^ 1 \<le> 2 ^ e" using e0 by (intro power_increasing) auto
  then have "(2::int) ^ 52 * 2 ^ 1 \<le> m * 2 ^ e"
    using mq q by (intro mult_mono) auto
  ultimately show ?thesis by simp
qed

lemma nearest_double_small:
  assumes "\<bar>nearest_double k\<bar> < 2 ^ 53"
  shows "nearest_double k = k"
  using assms nearest_double_large [of k] nearest_double_exact [of k] by linarith

lemma js_number_exact:
  assumes "\<bar>k\<bar> \<le> 2 ^ 53"
  shows "js_number k = Ok k"
  using assms nearest_double_exact [OF assms] by (simp add: js_number_def)

lemma replicate_8: "replicate 8 x = [x, x, x, x, x, x, x, x]"
  by (simp add: numeral_eq_Suc)

lemmas exec_defs = exec_def exec_MOV_def exec_ADD_def on_operand_def on_value_def
  resolveOperand_def checked_lookup_def reg_read_def reg_write_def typed_get_def typed_set_def setFlags_def
  to_uint32_def js_number_exact nearest_double_exact

lemmas prog_defs = createCPU_def program_of_def instr_def reg_operand_def imm_operand_def
  label_operand_def no_opts_def replicate_8

lemma step_exec:
  assumes "\<not> halted cpu" and "0 \<le> IP cpu" and "IP cpu < int (length (ast program))"
  shows "step cpu program ram hooks =
    (case exec (ast program ! nat (IP cpu)) cpu program ram hooks of
       Break cpu' ram' \<Rightarrow> Done (cpu'\<lparr>IP := nearest_double (IP cpu' + 1)\<rparr>) ram'
     | Return cpu' ram' \<Rightarrow> Done cpu' ram'
     | Throw e cpu' ram' \<Rightarrow> Fault (AsmError (line (ast program ! nat (IP cpu))) e) cpu' ram'
     | Unmodelled \<Rightarrow> OutsideModel)"
  using assms by (simp add: step_def Let_def)

lemma reg_read_reg_write:
  assumes "reg_read cpu v = Ok c"
  shows "reg_read (reg_write cpu v x) v =
           Ok (if v = Num (- 1) \<or> v = Num (- 2) then x else sint (word_of_int x :: 32 word))"
  using assms
  by (auto simp add: reg_read_def reg_write_def typed_get_def typed_set_def
      split: opvalue.splits if_splits)

lemma reg_read_setFlags [simp]: "reg_read (setFlags cpu r a b k) v = reg_read cpu v"
  by (auto simp add: reg_read_def setFlags_def Let_def
      split: opvalue.splits operation.splits option.splits)

lemma reg_read_F_update [simp]: "reg_read (cpu\<lparr>F := f\<rparr>) v = reg_read cpu v"
  by (cases v) (simp_all add: reg_read_def)

lemma reg_read_IP_update [simp]: "reg_read (cpu\<lparr>IP := f\<rparr>) v = reg_read cpu v"
  by (cases v) (simp_all add: reg_read_def)

subsection \<open>ADD and the flags on overflow\<close>

text \<open>\<^verbatim>\<open>setFlags\<close> called as the ADD case calls it, with the sum of the two numbers as
  the result: the sign of the sum of two numbers of the same sign is their sign, so the
  overflow flag is never set.\<close>

lemma setFlags_add_unwrapped:
  "OF (F (setFlags cpu (a + b) (Some a) (Some b) OpAdd)) = False"
  by (auto simp add: setFlags_def Let_def)

text \<open>
  Claim C1. The spec: after \<^verbatim>\<open>MOV R0,#2147483647; ADD R0,#1\<close> the register R0 has
  wrapped to \<open>-2147483648\<close> and both OF and NF are true. The code: \<^verbatim>\<open>step\<close> computes
  \<^verbatim>\<open>result = a + b\<close> on JavaScript numbers, so \<open>result\<close> is \<open>2147483648\<close>; only
  the store into the \<^verbatim>\<open>Int32Array\<close> wraps. \<^verbatim>\<open>setFlags\<close> receives the unwrapped
  \<open>result\<close>, whose sign is that of the operands, and so it leaves NF and OF (and ZF,
  CF) false. The theorem evaluates the two steps: R0 holds \<open>0x80000000\<close>, that is
  \<open>-2147483648\<close>, and all four flags are false.
\<close>

theorem add_overflow_leaves_flags_clear:
  "run createCPU overflow_program ram (no_opts 2) =
     Returned \<lparr>steps = 2, run_halted = False, hitBreakpoint = False\<rparr>
       (createCPU\<lparr>R := [0x80000000, 0, 0, 0, 0, 0, 0, 0], IP := 2,
          F := \<lparr>ZF = False, NF = False, CF = False, OF = False\<rparr>\<rparr>) ram
   \<and> sint (0x80000000 :: 32 word) = - 2147483648"
  by (simp add: run_def run_loop.simps step_def overflow_program_def prog_defs exec_defs)

subsection \<open>Shifts and the carry flag\<close>

text \<open>\<^verbatim>\<open>setFlags(cpu, result)\<close>, the call that ends the cases AND, OR, XOR, NOT, SHL and
  SHR, clears the carry and overflow flags whatever they were.\<close>

lemma setFlags_logic_clears:
  "CF (F (setFlags cpu r None None OpLogic)) = False \<and>
   OF (F (setFlags cpu r None None OpLogic)) = False"
  by (simp add: setFlags_def)

text \<open>
  Claim C2. The spec: after SHL or SHR with a shift amount in \<open>[1,31]\<close> the carry flag
  is the last bit shifted out. The code assigns \<^verbatim>\<open>cpu.F.CF\<close> from that bit and
  then calls \<^verbatim>\<open>setFlags(cpu, result)\<close>, whose default branch clears CF and OF. The
  theorem evaluates \<^verbatim>\<open>MOV R0,#-2147483648; SHL R0,#1\<close>: the bit shifted out is bit
  31 of the operand, which is 1, and CF is false after the step.
\<close>

theorem shl_carry_is_cleared:
  "run createCPU shl_program ram (no_opts 2) =
     Returned \<lparr>steps = 2, run_halted = False, hitBreakpoint = False\<rparr>
       (createCPU\<lparr>R := [0, 0, 0, 0, 0, 0, 0, 0], IP := 2,
          F := \<lparr>ZF = True, NF = False, CF = False, OF = False\<rparr>\<rparr>) ram
   \<and> bit (word_of_int (- 2147483648) :: 32 word) 31"
  by (simp add: run_def run_loop.simps step_def shl_program_def prog_defs exec_defs exec_SHL_def)

subsection \<open>Conditional jumps\<close>

text \<open>
  Claim C3. The spec: every taken jump validates its target against
  \<open>[0, instructionCount)\<close> and raises a runtime error otherwise. The code does so for
  JMP (and CALL, RET), but the ten conditional jumps assign \<^verbatim>\<open>cpu.IP = target\<close>
  with no check. The theorem evaluates \<^verbatim>\<open>JNZ 99\<close> on a fresh CPU (ZF is false, the
  jump is taken) in a program of one instruction: the step returns normally with
  \<open>IP = 99\<close>.
\<close>

theorem jnz_target_not_validated:
  "step createCPU jnz_program ram None = Done (createCPU\<lparr>IP := 99\<rparr>) ram
   \<and> length (ast jnz_program) = 1"
  by (simp add: step_def jnz_program_def prog_defs exec_defs exec_Jcc_def)

subsection \<open>MUL and the flags\<close>

text \<open>
  Claim C4. The spec: after MUL, CF = OF, true exactly when the exact product is outside
  the 32-bit signed range. The code compares the product with \<^verbatim>\<open>0x7FFFFFFFF\<close> and
  \<^verbatim>\<open>-0x800000000\<close>, which are \<open>2^35 - 1\<close> and \<open>-2^35\<close> (nine hexadecimal digits
  instead of eight). The theorem evaluates \<^verbatim>\<open>MOV R0,#65536; MUL R0,#65536\<close>: the
  product \<open>2^32\<close> is outside the 32-bit signed range, R0 wraps to 0, and CF and OF
  are false.
\<close>

theorem mul_overflow_not_flagged:
  "run createCPU mul_program ram (no_opts 2) =
     Returned \<lparr>steps = 2, run_halted = False, hitBreakpoint = False\<rparr>
       (createCPU\<lparr>R := [0, 0, 0, 0, 0, 0, 0, 0], IP := 2,
          F := \<lparr>ZF = True, NF = False, CF = False, OF = False\<rparr>\<rparr>) ram
   \<and> (65536 :: int) * 65536 > 2147483647"
  by (simp add: run_def run_loop.simps step_def mul_program_def prog_defs exec_defs exec_MUL_def)

subsection \<open>DIV by zero\<close>

text \<open>
  Claim C5. When the resolved divisor of a DIV instruction is 0, \<open>step\<close> raises a
  runtime error carrying the source line of the DIV instruction; in the state the error
  leaves behind CF is true, and nothing else has changed: the registers, SP, BP, IP, the
  other flags and the memory are those before the step.
\<close>

theorem div_by_zero_fault:
  assumes "\<not> halted cpu" and "0 \<le> IP cpu" and "IP cpu < int (length (ast program))"
    and "op (ast program ! nat (IP cpu)) = ''DIV''"
    and "1 < length (operands (ast program ! nat (IP cpu)))"
    and "resolveOperand (operands (ast program ! nat (IP cpu)) ! 1) cpu ram (labels program) = Ok 0"
  shows "step cpu program ram hooks =
     Fault (AsmError (line (ast program ! nat (IP cpu))) DivisionByZero)
       (cpu\<lparr>F := (F cpu)\<lparr>CF := True\<rparr>\<rparr>) ram"
  using assms by (simp add: step_def exec_def exec_DIV_def on_operand_def on_value_def)

theorem div_by_zero_fault_witness:
  "step (createCPU\<lparr>R := [1, 0, 0, 0, 0, 0, 0, 0], IP := 2\<rparr>) div_program (\<lambda>_. 0) None =
     Fault (AsmError 3 DivisionByZero)
       (createCPU\<lparr>R := [1, 0, 0, 0, 0, 0, 0, 0], IP := 2,
          F := \<lparr>ZF = False, NF = False, CF = True, OF = False\<rparr>\<rparr>) (\<lambda>_. 0)"
  using div_by_zero_fault
    [of "createCPU\<lparr>R := [1, 0, 0, 0, 0, 0, 0, 0], IP := 2\<rparr>" div_program "\<lambda>_. 0" None]
  by (simp add: div_program_def prog_defs resolveOperand_def typed_get_def)

subsection \<open>Stack overflow leaves SP decremented\<close>

text \<open>
  Claim C9. When a PUSH, or a CALL with a valid target, finds that the decremented stack
  pointer is negative, the step faults with a stack overflow and the CPU it leaves behind
  has SP already decremented by 4 (everything else, and the memory, unchanged). The stack
  pointer is a JavaScript number, and \<^verbatim>\<open>cpu.SP -= 4\<close> subtracts 4 exactly as long as the
  difference is at least \<open>-2^53\<close>: this is the range of the theorem. (Below it the
  subtraction rounds; at \<open>SP = -2^55\<close> it leaves SP as it was.)
\<close>

theorem stack_overflow_keeps_decremented_sp:
  assumes "\<not> halted cpu" and "0 \<le> IP cpu" and "IP cpu < int (length (ast program))"
    and "0 < length (operands (ast program ! nat (IP cpu)))"
    and "resolveOperand (operands (ast program ! nat (IP cpu)) ! 0) cpu ram (labels program) = Ok v"
    and "SP cpu - 4 < 0" and "- (2 ^ 53) \<le> SP cpu - 4"
  shows "(op (ast program ! nat (IP cpu)) = ''PUSH'' \<longrightarrow>
            step cpu program ram hooks =
              Fault (AsmError (line (ast program ! nat (IP cpu))) StackOverflow)
                (cpu\<lparr>SP := SP cpu - 4\<rparr>) ram) \<and>
         (op (ast program ! nat (IP cpu)) = ''CALL'' \<and> 0 \<le> v \<and> v < int (length (ast program)) \<longrightarrow>
            step cpu program ram hooks =
              Fault (AsmError (line (ast program ! nat (IP cpu))) StackOverflowOnCall)
                (cpu\<lparr>SP := SP cpu - 4\<rparr>) ram)"
proof -
  have "\<bar>SP cpu - 4\<bar> \<le> 2 ^ 53" using assms(6,7) by simp
  then have "nearest_double (SP cpu - 4) = SP cpu - 4" by (rule nearest_double_exact)
  then show ?thesis
    using assms
    by (simp add: step_def exec_def exec_PUSH_def exec_CALL_def on_operand_def on_value_def Let_def)
qed

theorem stack_overflow_keeps_decremented_sp_witness:
  "step (createCPU\<lparr>SP := 0\<rparr>) push_program (\<lambda>_. 0) None =
     Fault (AsmError 1 StackOverflow) (createCPU\<lparr>SP := - 4\<rparr>) (\<lambda>_. 0) \<and>
   step (createCPU\<lparr>SP := 0\<rparr>) call_program (\<lambda>_. 0) None =
     Fault (AsmError 1 StackOverflowOnCall) (createCPU\<lparr>SP := - 4\<rparr>) (\<lambda>_. 0)"
  using stack_overflow_keeps_decremented_sp
      [of "createCPU\<lparr>SP := 0\<rparr>" push_program "\<lambda>_. 0" 0 None]
    stack_overflow_keeps_decremented_sp
      [of "createCPU\<lparr>SP := 0\<rparr>" call_program "\<lambda>_. 0" 0 None]
  by (simp add: push_program_def call_program_def prog_defs resolveOperand_def typed_get_def)

text \<open>Where the subtraction rounds: a PUSH at \<open>SP = -2^55\<close> faults and leaves SP as it
  was, since the doubles next to \<open>-2^55\<close> are 8 apart.\<close>

lemma push_far_below_zero:
  "step (createCPU\<lparr>SP := - 36028797018963968\<rparr>) push_program (\<lambda>_. 0) None =
     Fault (AsmError 1 StackOverflow) (createCPU\<lparr>SP := - 36028797018963968\<rparr>) (\<lambda>_. 0)"
  by (simp add: step_def exec_def exec_PUSH_def on_operand_def on_value_def push_program_def
      prog_defs resolveOperand_def typed_get_def nearest_double_def excess_bits.simps Let_def)

subsection \<open>SHR is a logical shift\<close>

lemma uint_drop_bit_div:
  fixes w :: "32 word"
  shows "uint (drop_bit n w) = uint w div 2 ^ n"
proof -
  have "uint (drop_bit n w) = int (unat (drop_bit n w))" by simp
  also have "\<dots> = int (unat w div 2 ^ n)"
    by (simp only: unat_drop_bit_eq) (simp only: drop_bit_eq_div)
  also have "\<dots> = uint w div 2 ^ n" by (simp add: zdiv_int)
  finally show ?thesis .
qed

lemma uint_drop_bit_bound:
  fixes w :: "32 word"
  assumes "1 \<le> n"
  shows "uint (drop_bit n w) < 2 ^ 31"
proof -
  have "uint w < 2 ^ 32" using uint_bounded [of w] by simp
  moreover have "(2::int) ^ 1 \<le> 2 ^ n"
    using assms by (intro power_increasing) auto
  then have "uint w div 2 ^ n \<le> uint w div 2 ^ 1"
    by (intro zdiv_mono2) auto
  ultimately show ?thesis by (simp add: uint_drop_bit_div)
qed

lemma sint_word_of_int_32: "sint (word_of_int k :: 32 word) = signed_take_bit 31 k"
  by (simp add: sint_sbintrunc')

lemma sint_uint_drop_bit:
  fixes w :: "32 word"
  assumes "1 \<le> n"
  shows "sint (word_of_int (uint (drop_bit n w)) :: 32 word) = uint (drop_bit n w)"
proof -
  have "uint (drop_bit n w) < 2 ^ 31" by (rule uint_drop_bit_bound [OF assms])
  moreover have "- (2 ^ 31) \<le> uint (drop_bit n w)"
    by (rule order_trans [of _ 0]) simp_all
  ultimately have "signed_take_bit 31 (uint (drop_bit n w)) = uint (drop_bit n w)"
    by (intro signed_take_bit_int_eq_self)
  then show ?thesis by (simp only: sint_word_of_int_32)
qed

lemma exec_SHR_ok:
  assumes "1 < length ops"
    and "reg_read cpu (ovalue (ops ! 0)) = Ok current"
    and "resolveOperand (ops ! 1) cpu ram (labels program) = Ok shift"
    and "0 \<le> shift" and "shift \<le> 31"
  shows "exec_SHR ops cpu program ram =
     Break (setFlags
       ((reg_write cpu (ovalue (ops ! 0)) (uint (drop_bit (nat shift) (word_of_int current :: 32 word))))
          \<lparr>F := (F (reg_write cpu (ovalue (ops ! 0)) (uint (drop_bit (nat shift) (word_of_int current :: 32 word)))))
             \<lparr>CF := (shift > 0 \<and> drop_bit (nat (shift - 1)) (word_of_int current :: 32 word) AND 1 = 1)\<rparr>\<rparr>)
       (uint (drop_bit (nat shift) (word_of_int current :: 32 word))) None None OpLogic) ram"
  using assms by (auto simp add: exec_SHR_def on_operand_def on_value_def Let_def)

text \<open>
  Claim C10. For every operand value and every shift amount in \<open>[1,31]\<close>, a SHR step
  returns normally and the destination register then holds the unsigned 32-bit
  reading of the operand divided by \<open>2 ^ shift\<close>: a non-negative number, also when the
  operand was negative. The destination may be any of R0..R7, SP and BP.
\<close>

theorem shr_result_nonnegative:
  assumes "\<not> halted cpu" and "0 \<le> IP cpu" and "IP cpu < int (length (ast program))"
    and "op (ast program ! nat (IP cpu)) = ''SHR''"
    and "1 < length (operands (ast program ! nat (IP cpu)))"
    and "reg_read cpu (ovalue (operands (ast program ! nat (IP cpu)) ! 0)) = Ok current"
    and "resolveOperand (operands (ast program ! nat (IP cpu)) ! 1) cpu ram (labels program) = Ok shift"
    and "1 \<le> shift" and "shift \<le> 31"
  shows "\<exists>cpu'. step cpu program ram hooks = Done cpu' ram \<and>
           reg_read cpu' (ovalue (operands (ast program ! nat (IP cpu)) ! 0)) =
             Ok (to_uint32 current div 2 ^ nat shift) \<and>
           0 \<le> to_uint32 current div 2 ^ nat shift"
proof -
  define w where "w = (word_of_int current :: 32 word)"
  define r where "r = uint (drop_bit (nat shift) w)"
  define ops where "ops = operands (ast program ! nat (IP cpu))"
  have n: "1 \<le> nat shift" using assms(8) by simp
  have r_eq: "r = to_uint32 current div 2 ^ nat shift"
    by (simp add: r_def w_def to_uint32_def uint_drop_bit_div)
  have r_sint: "sint (word_of_int r :: 32 word) = r"
    unfolding r_def by (rule sint_uint_drop_bit [OF n])
  have r0: "0 \<le> r" by (simp add: r_def)
  have ex: "exec (ast program ! nat (IP cpu)) cpu program ram hooks = exec_SHR ops cpu program ram"
    using assms(4) by (simp add: exec_def ops_def)
  have shr: "exec_SHR ops cpu program ram =
     Break (setFlags
       ((reg_write cpu (ovalue (ops ! 0)) r)
          \<lparr>F := (F (reg_write cpu (ovalue (ops ! 0)) r))
             \<lparr>CF := (shift > 0 \<and> drop_bit (nat (shift - 1)) w AND 1 = 1)\<rparr>\<rparr>)
       r None None OpLogic) ram"
    unfolding r_def w_def
    using assms(5,6,7,8,9) by (intro exec_SHR_ok) (simp_all add: ops_def)
  have rd: "reg_read (reg_write cpu (ovalue (ops ! 0)) r) (ovalue (ops ! 0)) = Ok r"
    using reg_read_reg_write [of cpu "ovalue (ops ! 0)" current r] assms(6) r_sint
    by (simp add: ops_def)
  show ?thesis
    using step_exec [OF assms(1-3), of ram hooks] ex shr rd r0 r_eq
    by (simp add: ops_def)
qed

theorem shr_result_nonnegative_witness:
  "\<exists>cpu'. step (createCPU\<lparr>R := [- 8, 0, 0, 0, 0, 0, 0, 0], IP := 1\<rparr>) shr_program (\<lambda>_. 0) None =
             Done cpu' (\<lambda>_. 0) \<and>
          reg_read cpu' (Num 0) = Ok 2147483644"
  using shr_result_nonnegative
    [of "createCPU\<lparr>R := [- 8, 0, 0, 0, 0, 0, 0, 0], IP := 1\<rparr>" shr_program "- 8" "\<lambda>_. 0" 1 None]
  by (simp add: shr_program_def prog_defs resolveOperand_def reg_read_def typed_get_def to_uint32_def)

subsection \<open>The step budget of run\<close>

text \<open>A JMP whose operand resolves to the index of the JMP itself leaves the CPU and the
  memory as they are, at every step.\<close>

lemma jmp_self_step:
  assumes "\<not> halted cpu" and "0 \<le> IP cpu" and "IP cpu < int (length (ast program))"
    and "op (ast program ! nat (IP cpu)) = ''JMP''"
    and "0 < length (operands (ast program ! nat (IP cpu)))"
    and "resolveOperand (operands (ast program ! nat (IP cpu)) ! 0) cpu ram (labels program) =
           Ok (IP cpu)"
  shows "step cpu program ram hook = Done cpu ram"
  using assms
  by (simp add: step_def exec_def exec_JMP_def on_operand_def on_value_def)

lemma jmp_self_step_n:
  assumes "\<not> halted cpu" and "0 \<le> IP cpu" and "IP cpu < int (length (ast program))"
    and "op (ast program ! nat (IP cpu)) = ''JMP''"
    and "0 < length (operands (ast program ! nat (IP cpu)))"
    and "resolveOperand (operands (ast program ! nat (IP cpu)) ! 0) cpu ram (labels program) =
           Ok (IP cpu)"
  shows "step_n k cpu program ram hook = Done cpu ram"
  by (induction k) (simp_all add: jmp_self_step [OF assms])

text \<open>The loop of \<^verbatim>\<open>run\<close> started with its counter at \<open>j\<close>, on a state from which
  \<open>n\<close> steps can be executed, none of them on a halted CPU or at a breakpoint, and with
  the budget \<open>j + n\<close>: it executes these \<open>n\<close> steps and returns.\<close>

lemma run_loop_step_n:
  assumes "\<forall>k<n. \<exists>ck rk. step_n k cpu program ram hook = Done ck rk \<and> \<not> halted ck \<and> IP ck \<notin> bps"
    and "step_n n cpu program ram hook = Done c r"
    and "j + int n = m" and "m \<le> 2 ^ 53"
  shows "run_loop cpu program ram m bps hook j =
           Returned \<lparr>steps = m, run_halted = halted c, hitBreakpoint = False\<rparr> c r"
  using assms
proof (induction n arbitrary: cpu ram j)
  case 0
  then show ?case by (simp add: run_loop.simps)
next
  case (Suc n)
  from Suc.prems(1) have first: "\<not> halted cpu" "IP cpu \<notin> bps"
    by (auto dest!: spec [of _ 0])
  obtain c1 r1 where st: "step cpu program ram hook = Done c1 r1"
    using Suc.prems(2) by (cases "step cpu program ram hook") simp_all
  have rest: "step_n n c1 program r1 hook = Done c r"
    using Suc.prems(2) st by simp
  have going: "\<forall>k<n. \<exists>ck rk. step_n k c1 program r1 hook = Done ck rk \<and> \<not> halted ck \<and> IP ck \<notin> bps"
  proof (intro allI impI)
    fix k assume "k < n"
    then have "Suc k < Suc n" by simp
    then obtain ck rk where "step_n (Suc k) cpu program ram hook = Done ck rk \<and> \<not> halted ck \<and> IP ck \<notin> bps"
      using Suc.prems(1) by blast
    then show "\<exists>ck rk. step_n k c1 program r1 hook = Done ck rk \<and> \<not> halted ck \<and> IP ck \<notin> bps"
      using st by auto
  qed
  have j: "j < m" "j < 2 ^ 53" "j + 1 + int n = m"
    using Suc.prems(3,4) by simp_all
  have "run_loop cpu program ram m bps hook j = run_loop c1 program r1 m bps hook (j + 1)"
    using first st j(1,2) by (subst run_loop.simps) simp
  then show ?case
    using Suc.IH [OF going rest j(3) Suc.prems(4)] by simp
qed

text \<open>
  Claim C8. \<open>run\<close> with the budget \<open>maxSteps = n\<close> (at most \<open>2^53\<close>, up to where
  \<^verbatim>\<open>steps++\<close> counts), on a program of which \<open>n\<close> steps can be executed from the
  given state, none of the first \<open>n\<close> steps starting on a halted CPU or at a breakpoint
  and none throwing: \<open>run\<close> returns normally (\<open>Returned\<close>, not \<open>Raised\<close>) with
  \<open>steps = n\<close> and \<open>hitBreakpoint = false\<close>, and the CPU and the memory it leaves are
  those that \<open>n\<close> calls of \<open>step\<close> in a row produce, no more and no fewer; \<open>halted\<close>
  is the flag of that CPU. A JMP that jumps to itself is the instance where each step
  returns the state it was given (lemma \<open>jmp_self_step_n\<close>): with \<open>maxSteps = 100\<close> the
  run returns after 100 steps with \<open>halted = false\<close> and the state unchanged, which the
  witness evaluates for \<^verbatim>\<open>loop: JMP loop\<close>, next to a loop that counts its rounds in R0.
\<close>

theorem run_self_loop_exhausts_budget:
  assumes "maxSteps opts = Some (int n)" and "int n \<le> 2 ^ 53"
    and "\<forall>k<n. \<exists>ck rk. step_n k cpu program ram (onSys opts) = Done ck rk \<and> \<not> halted ck \<and>
           IP ck \<notin> (case breakpoints opts of Some b \<Rightarrow> b | None \<Rightarrow> {})"
    and "step_n n cpu program ram (onSys opts) = Done c r"
  shows "run cpu program ram opts =
           Returned \<lparr>steps = int n, run_halted = halted c, hitBreakpoint = False\<rparr> c r"
  unfolding run_def
  using run_loop_step_n [OF assms(3,4), of 0 "int n"] assms(1,2)
  by simp

theorem run_self_loop_exhausts_budget_witness:
  "run createCPU loop_program (\<lambda>_. 0) (no_opts 100) =
     Returned \<lparr>steps = 100, run_halted = False, hitBreakpoint = False\<rparr> createCPU (\<lambda>_. 0) \<and>
   run createCPU count_program (\<lambda>_. 0) (no_opts 6) =
     Returned \<lparr>steps = 6, run_halted = False, hitBreakpoint = False\<rparr>
       (createCPU\<lparr>R := [3, 0, 0, 0, 0, 0, 0, 0]\<rparr>) (\<lambda>_. 0)"
proof -
  have self: "step_n k createCPU loop_program (\<lambda>_. 0) None = Done createCPU (\<lambda>_. 0)" for k
    by (rule jmp_self_step_n)
      (simp_all add: loop_program_def prog_defs resolveOperand_def checked_lookup_def)
  have a: "run createCPU loop_program (\<lambda>_. 0) (no_opts 100) =
     Returned \<lparr>steps = 100, run_halted = False, hitBreakpoint = False\<rparr> createCPU (\<lambda>_. 0)"
    using run_self_loop_exhausts_budget
      [of "no_opts 100" 100 createCPU loop_program "\<lambda>_. 0" createCPU "\<lambda>_. 0"] self
    by (simp add: no_opts_def createCPU_def)
  have h0: "\<not> halted createCPU" "IP createCPU = 0"
    by (simp_all add: createCPU_def)
  have c0: "createCPU = createCPU\<lparr>R := [0, 0, 0, 0, 0, 0, 0, 0]\<rparr>"
    by (simp add: prog_defs)
  have inc: "step (createCPU\<lparr>R := [x, 0, 0, 0, 0, 0, 0, 0]\<rparr>) count_program (\<lambda>_. 0) None =
      Done (createCPU\<lparr>R := [x + 1, 0, 0, 0, 0, 0, 0, 0], IP := 1\<rparr>) (\<lambda>_. 0)"
    if "x = 0 \<or> x = 1 \<or> x = 2" for x :: "32 word"
    using that
    by (auto simp add: step_def count_program_def prog_defs exec_defs exec_INC_def)
  have jmp: "step (createCPU\<lparr>R := [x, 0, 0, 0, 0, 0, 0, 0], IP := 1\<rparr>) count_program (\<lambda>_. 0) None =
      Done (createCPU\<lparr>R := [x, 0, 0, 0, 0, 0, 0, 0]\<rparr>) (\<lambda>_. 0)" for x :: "32 word"
    by (simp add: step_def count_program_def prog_defs exec_def exec_JMP_def on_operand_def
        on_value_def resolveOperand_def checked_lookup_def)
  have first: "step createCPU count_program (\<lambda>_. 0) None =
      Done (createCPU\<lparr>R := [1, 0, 0, 0, 0, 0, 0, 0], IP := 1\<rparr>) (\<lambda>_. 0)"
    using inc [of 0] c0 by simp
  have going: "\<forall>k<6. \<exists>ck rk. step_n k createCPU count_program (\<lambda>_. 0) None = Done ck rk \<and>
      \<not> halted ck \<and> IP ck \<notin> {}"
  proof (intro allI impI)
    fix k :: nat
    assume "k < 6"
    then consider "k = 0" | "k = Suc 0" | "k = Suc (Suc 0)" | "k = Suc (Suc (Suc 0))"
      | "k = Suc (Suc (Suc (Suc 0)))" | "k = Suc (Suc (Suc (Suc (Suc 0))))"
      by linarith
    then show "\<exists>ck rk. step_n k createCPU count_program (\<lambda>_. 0) None = Done ck rk \<and>
        \<not> halted ck \<and> IP ck \<notin> {}"
      by cases (simp_all add: first inc jmp h0)
  qed
  have six: "(6::nat) = Suc (Suc (Suc (Suc (Suc (Suc 0)))))"
    by simp
  have last: "step_n 6 createCPU count_program (\<lambda>_. 0) None =
      Done (createCPU\<lparr>R := [3, 0, 0, 0, 0, 0, 0, 0]\<rparr>) (\<lambda>_. 0)"
    unfolding six by (simp add: first inc jmp)
  have b: "run createCPU count_program (\<lambda>_. 0) (no_opts 6) =
     Returned \<lparr>steps = 6, run_halted = False, hitBreakpoint = False\<rparr>
       (createCPU\<lparr>R := [3, 0, 0, 0, 0, 0, 0, 0]\<rparr>) (\<lambda>_. 0)"
    using run_self_loop_exhausts_budget
      [of "no_opts 6" 6 createCPU count_program "\<lambda>_. 0" "createCPU\<lparr>R := [3, 0, 0, 0, 0, 0, 0, 0]\<rparr>"
        "\<lambda>_. 0"] going last h0
    by (simp add: no_opts_def)
  show ?thesis using a b by simp
qed

subsection \<open>Stack balance\<close>

lemma le_word_bytes:
  fixes w :: "32 word"
  shows "le_word (ucast w) (ucast (drop_bit 8 w)) (ucast (drop_bit 16 w)) (ucast (drop_bit 24 w)) = w"
proof (rule bit_word_eqI)
  fix n :: nat
  assume "n < LENGTH(32)"
  then consider "n < 8" | "8 \<le> n" "n < 16" | "16 \<le> n" "n < 24" | "24 \<le> n" "n < 32"
    by force
  then show "bit (le_word (ucast w) (ucast (drop_bit 8 w)) (ucast (drop_bit 16 w))
      (ucast (drop_bit 24 w))) n = bit w n"
    by cases (auto simp add: le_word_def bit_simps)
qed

lemma getInt32_setInt32_same:
  assumes "setInt32 ram a v = Ok ram'"
  shows "getInt32 ram' a = Ok (sint (word_of_int v :: 32 word))"
  using assms
  by (auto simp add: setInt32_def getInt32_def Let_def le_word_bytes split: if_splits)

lemma setInt32_frame:
  assumes "setInt32 ram a v = Ok ram'" and "b < a \<or> a + 4 \<le> b"
  shows "ram' b = ram b"
  using assms by (auto simp add: setInt32_def Let_def split: if_splits)

lemma getInt32_cong:
  assumes "r1 a = r2 a" and "r1 (a + 1) = r2 (a + 1)" and "r1 (a + 2) = r2 (a + 2)"
    and "r1 (a + 3) = r2 (a + 3)"
  shows "getInt32 r1 a = getInt32 r2 a"
  using assms by (simp add: getInt32_def)

lemma setInt32_ok:
  assumes "0 \<le> a" and "a + 4 \<le> RAM_SIZE"
  shows "\<exists>ram'. setInt32 ram a v = Ok ram'"
  using assms by (simp add: setInt32_def)

lemma block_at_Nil [simp]: "block_at P k opc [] = (k \<le> length (ast P))"
  by (simp add: block_at_def)

lemma block_at_Cons:
  "block_at P k opc (r # rs) =
     (k < length (ast P) \<and> is_reg_instr (ast P ! k) opc r \<and> block_at P (Suc k) opc rs)"
proof (cases "k < length (ast P)")
  case True
  then have "drop k (ast P) = ast P ! k # drop (Suc k) (ast P)"
    by (simp add: Cons_nth_drop_Suc)
  then show ?thesis using True by (auto simp add: block_at_def)
next
  case False
  then show ?thesis by (simp add: block_at_def)
qed

lemma resolve_register:
  assumes "is_register s" and "length (R cpu) = 8" and "otype x = Reg" and "ovalue x = Num s"
  shows "resolveOperand x cpu ram tbl = Ok (reg_value cpu s)"
  using assms by (auto simp add: is_register_def resolveOperand_def typed_get_def reg_value_def)

lemma push_step:
  assumes "\<not> halted cpu" and "0 \<le> IP cpu" and "IP cpu < int (length (ast P))"
    and "is_reg_instr (ast P ! nat (IP cpu)) ''PUSH'' s"
    and "is_register s" and "length (R cpu) = 8"
  shows "step cpu P ram h =
     (if nearest_double (SP cpu - 4) < 0
      then Fault (AsmError (line (ast P ! nat (IP cpu))) StackOverflow)
             (cpu\<lparr>SP := nearest_double (SP cpu - 4)\<rparr>) ram
      else case setInt32 ram (nearest_double (SP cpu - 4)) (reg_value cpu s) of
             Ok ram' \<Rightarrow>
               Done (cpu\<lparr>SP := nearest_double (SP cpu - 4), IP := nearest_double (IP cpu + 1)\<rparr>) ram'
           | Err e \<Rightarrow> Fault (AsmError (line (ast P ! nat (IP cpu))) e)
                        (cpu\<lparr>SP := nearest_double (SP cpu - 4)\<rparr>) ram
           | Undef \<Rightarrow> OutsideModel)"
proof -
  obtain x xs where ops: "operands (ast P ! nat (IP cpu)) = x # xs"
    and x: "otype x = Reg" "ovalue x = Num s" and opc: "op (ast P ! nat (IP cpu)) = ''PUSH''"
    using assms(4) by (auto simp add: is_reg_instr_def split: list.splits)
  have rv: "resolveOperand x cpu ram (labels P) = Ok (reg_value cpu s)"
    by (rule resolve_register [OF assms(5,6) x])
  have "exec (ast P ! nat (IP cpu)) cpu P ram h = exec_PUSH (x # xs) cpu P ram"
    using opc ops by (simp add: exec_def)
  then show ?thesis
    using assms(1-3) rv
    by (simp add: step_def Let_def exec_PUSH_def on_operand_def on_value_def split: res.splits)
qed

lemma pop_step:
  assumes "\<not> halted cpu" and "0 \<le> IP cpu" and "IP cpu < int (length (ast P))"
    and "is_reg_instr (ast P ! nat (IP cpu)) ''POP'' d"
  shows "step cpu P ram h =
     (if RAM_SIZE - 4 \<le> SP cpu
      then Fault (AsmError (line (ast P ! nat (IP cpu))) StackUnderflow) cpu ram
      else case getInt32 ram (SP cpu) of
             Ok v \<Rightarrow> Done ((reg_write (cpu\<lparr>SP := nearest_double (SP cpu + 4)\<rparr>) (Num d) v)
                        \<lparr>IP := nearest_double (IP cpu + 1)\<rparr>) ram
           | Err e \<Rightarrow> Fault (AsmError (line (ast P ! nat (IP cpu))) e) cpu ram
           | Undef \<Rightarrow> OutsideModel)"
proof -
  obtain x xs where ops: "operands (ast P ! nat (IP cpu)) = x # xs"
    and x: "otype x = Reg" "ovalue x = Num d" and opc: "op (ast P ! nat (IP cpu)) = ''POP''"
    using assms(4) by (auto simp add: is_reg_instr_def split: list.splits)
  have ip: "IP (reg_write (cpu\<lparr>SP := a\<rparr>) (Num d) v) = IP cpu" for a v
    by (simp add: reg_write_def)
  have "exec (ast P ! nat (IP cpu)) cpu P ram h = exec_POP (x # xs) cpu P ram"
    using opc ops by (simp add: exec_def)
  then show ?thesis
    using assms(1-3) x ip
    by (simp add: step_def Let_def exec_POP_def on_operand_def on_value_def split: res.splits)
qed

text \<open>The same two steps where the stack pointer is inside the memory and the program is
  an array of JavaScript (of at most \<open>2^53\<close> entries, so that the instruction pointer counts
  exactly): the arithmetic is exact. Conversely a PUSH or a POP that returns has found the
  stack pointer there.\<close>

lemma push_step_ok:
  assumes "\<not> halted cpu" and "0 \<le> IP cpu" and "IP cpu < int (length (ast P))"
    and "is_reg_instr (ast P ! nat (IP cpu)) ''PUSH'' s"
    and "is_register s" and "length (R cpu) = 8"
    and "4 \<le> SP cpu" and "SP cpu \<le> RAM_SIZE" and "int (length (ast P)) \<le> 2 ^ 53"
  shows "\<exists>ram'. setInt32 ram (SP cpu - 4) (reg_value cpu s) = Ok ram' \<and>
           step cpu P ram h = Done (cpu\<lparr>SP := SP cpu - 4, IP := IP cpu + 1\<rparr>) ram'"
proof -
  have sp: "nearest_double (SP cpu - 4) = SP cpu - 4"
    using assms(7,8) by (intro nearest_double_exact) (simp add: RAM_SIZE_def)
  have ip: "nearest_double (IP cpu + 1) = IP cpu + 1"
    using assms(2,3,9) by (intro nearest_double_exact) simp
  obtain ram' where w: "setInt32 ram (SP cpu - 4) (reg_value cpu s) = Ok ram'"
    using setInt32_ok [of "SP cpu - 4" ram "reg_value cpu s"] assms(7,8) by auto
  show ?thesis
    using push_step [OF assms(1-6), of ram h] sp ip w assms(7) by simp
qed

lemma push_step_Done:
  assumes "\<not> halted cpu" and "0 \<le> IP cpu" and "IP cpu < int (length (ast P))"
    and "is_reg_instr (ast P ! nat (IP cpu)) ''PUSH'' s"
    and "is_register s" and "length (R cpu) = 8"
    and "int (length (ast P)) \<le> 2 ^ 53"
    and "step cpu P ram h = Done c1 r1"
  shows "4 \<le> SP cpu \<and> SP cpu \<le> RAM_SIZE \<and> c1 = cpu\<lparr>SP := SP cpu - 4, IP := IP cpu + 1\<rparr>"
proof -
  let ?sp = "nearest_double (SP cpu - 4)"
  have ip: "nearest_double (IP cpu + 1) = IP cpu + 1"
    using assms(2,3,7) by (intro nearest_double_exact) simp
  have ps: "step cpu P ram h =
     (if ?sp < 0
      then Fault (AsmError (line (ast P ! nat (IP cpu))) StackOverflow) (cpu\<lparr>SP := ?sp\<rparr>) ram
      else case setInt32 ram ?sp (reg_value cpu s) of
             Ok ram' \<Rightarrow> Done (cpu\<lparr>SP := ?sp, IP := nearest_double (IP cpu + 1)\<rparr>) ram'
           | Err e \<Rightarrow> Fault (AsmError (line (ast P ! nat (IP cpu))) e) (cpu\<lparr>SP := ?sp\<rparr>) ram
           | Undef \<Rightarrow> OutsideModel)"
    by (rule push_step [OF assms(1-6)])
  have lo: "0 \<le> ?sp" using ps assms(8) by (auto split: if_splits)
  have hi: "?sp + 4 \<le> RAM_SIZE" and c1: "c1 = cpu\<lparr>SP := ?sp, IP := IP cpu + 1\<rparr>"
    using ps assms(8) lo ip by (auto simp add: setInt32_def split: if_splits res.splits)
  have "\<bar>?sp\<bar> < 2 ^ 53" using lo hi by (simp add: RAM_SIZE_def)
  then have "?sp = SP cpu - 4" by (rule nearest_double_small)
  then show ?thesis using lo hi c1 by simp
qed

lemma pop_step_ok:
  assumes "\<not> halted cpu" and "0 \<le> IP cpu" and "IP cpu < int (length (ast P))"
    and "is_reg_instr (ast P ! nat (IP cpu)) ''POP'' d"
    and "0 \<le> SP cpu" and "SP cpu < RAM_SIZE - 4" and "int (length (ast P)) \<le> 2 ^ 53"
  shows "\<exists>v. getInt32 ram (SP cpu) = Ok v \<and>
           step cpu P ram h =
             Done ((reg_write (cpu\<lparr>SP := SP cpu + 4\<rparr>) (Num d) v)\<lparr>IP := IP cpu + 1\<rparr>) ram"
proof -
  have sp: "nearest_double (SP cpu + 4) = SP cpu + 4"
    using assms(5,6) by (intro nearest_double_exact) (simp add: RAM_SIZE_def)
  have ip: "nearest_double (IP cpu + 1) = IP cpu + 1"
    using assms(2,3,7) by (intro nearest_double_exact) simp
  obtain v where g: "getInt32 ram (SP cpu) = Ok v"
    using assms(5,6) by (simp add: getInt32_def)
  show ?thesis
    using pop_step [OF assms(1-4), of ram h] sp ip g assms(6) by simp
qed

lemma pop_step_Done:
  assumes "\<not> halted cpu" and "0 \<le> IP cpu" and "IP cpu < int (length (ast P))"
    and "is_reg_instr (ast P ! nat (IP cpu)) ''POP'' d"
    and "step cpu P ram h = Done c1 r1"
  shows "0 \<le> SP cpu \<and> SP cpu < RAM_SIZE - 4"
proof -
  have ps: "step cpu P ram h =
     (if RAM_SIZE - 4 \<le> SP cpu
      then Fault (AsmError (line (ast P ! nat (IP cpu))) StackUnderflow) cpu ram
      else case getInt32 ram (SP cpu) of
             Ok v \<Rightarrow> Done ((reg_write (cpu\<lparr>SP := nearest_double (SP cpu + 4)\<rparr>) (Num d) v)
                        \<lparr>IP := nearest_double (IP cpu + 1)\<rparr>) ram
           | Err e \<Rightarrow> Fault (AsmError (line (ast P ! nat (IP cpu))) e) cpu ram
           | Undef \<Rightarrow> OutsideModel)"
    by (rule pop_step [OF assms(1-4)])
  have hi: "SP cpu < RAM_SIZE - 4" using ps assms(5) by (auto split: if_splits)
  have lo: "0 \<le> SP cpu"
    using ps assms(5) hi by (auto simp add: getInt32_def split: if_splits res.splits)
  show ?thesis using lo hi by simp
qed

lemma run_loop_Done:
  assumes "\<not> halted cpu" and "n < m" and "n < 2 ^ 53" and "step cpu P ram h = Done c1 r1"
  shows "run_loop cpu P ram m {} h n = run_loop c1 P r1 m {} h (n + 1)"
  using assms by (subst run_loop.simps) simp

lemma run_loop_stop:
  assumes "\<not> n < m"
  shows "run_loop cpu P ram m bps h n =
           Returned \<lparr>steps = n, run_halted = halted cpu, hitBreakpoint = False\<rparr> cpu ram"
  using assms by (subst run_loop.simps) simp

lemma run_loop_Returned_step:
  assumes "run_loop cpu P ram m {} h n = Returned res c r" and "\<not> halted cpu" and "n < m"
  shows "\<exists>c1 r1. step cpu P ram h = Done c1 r1 \<and> run_loop c1 P r1 m {} h (n + 1) = Returned res c r"
proof (cases "step cpu P ram h")
  case (Done c1 r1)
  have "run_loop cpu P ram m {} h n =
      (if n < 2 ^ 53 then run_loop c1 P r1 m {} h (n + 1) else RunOutsideModel)"
    using assms(2,3) Done by (subst run_loop.simps) simp
  then show ?thesis using assms(1) Done by (auto split: if_splits)
next
  case (Fault e c1 r1)
  then have "run_loop cpu P ram m {} h n = Raised e c1 r1"
    using assms(2,3) by (subst run_loop.simps) simp
  then show ?thesis using assms(1) by simp
next
  case OutsideModel
  then have "run_loop cpu P ram m {} h n = RunOutsideModel"
    using assms(2,3) by (subst run_loop.simps) simp
  then show ?thesis using assms(1) by simp
qed

lemma pushed_value_Cons:
  "pushed_value (cpu\<lparr>SP := SP cpu - 4, IP := ip\<rparr>) ss j = pushed_value cpu (s # ss) (Suc j)"
  by (simp add: pushed_value_def reg_value_def algebra_simps)

lemma pushed_value_0: "pushed_value cpu (s # ss) 0 = reg_value cpu s"
  by (simp add: pushed_value_def reg_value_def)

lemma pushes_forward:
  assumes "block_at P (nat (IP cpu)) ''PUSH'' srcs" and "list_all is_register srcs"
    and "\<not> halted cpu" and "0 \<le> IP cpu" and "length (R cpu) = 8"
    and "4 * int (length srcs) \<le> SP cpu" and "SP cpu \<le> RAM_SIZE"
    and "n + int (length srcs) \<le> m" and "m \<le> 2 ^ 53" and "int (length (ast P)) \<le> 2 ^ 53"
  shows "\<exists>ram'. run_loop cpu P ram m {} h n =
            run_loop (cpu\<lparr>SP := SP cpu - 4 * int (length srcs), IP := IP cpu + int (length srcs)\<rparr>)
              P ram' m {} h (n + int (length srcs)) \<and>
          (\<forall>i<length srcs. getInt32 ram' (SP cpu - 4 * (int i + 1)) = Ok (int32 (pushed_value cpu srcs i))) \<and>
          (\<forall>a. a < SP cpu - 4 * int (length srcs) \<or> SP cpu \<le> a \<longrightarrow> ram' a = ram a)"
  using assms
proof (induction srcs arbitrary: cpu ram n)
  case Nil
  then show ?case by (intro exI [of _ ram]) simp
next
  case (Cons s ss)
  let ?k = "nat (IP cpu)"
  let ?v = "reg_value cpu s"
  let ?cpu1 = "cpu\<lparr>SP := SP cpu - 4, IP := IP cpu + 1\<rparr>"
  from Cons.prems(1) have lt: "?k < length (ast P)" and ins: "is_reg_instr (ast P ! ?k) ''PUSH'' s"
    and rest: "block_at P (Suc ?k) ''PUSH'' ss"
    by (simp_all add: block_at_Cons)
  from Cons.prems(2) have s: "is_register s" and ss: "list_all is_register ss"
    by simp_all
  have ip: "IP cpu < int (length (ast P))" using lt Cons.prems(4) by linarith
  have sp: "4 \<le> SP cpu" using Cons.prems(6) by simp
  obtain ram1 where w: "setInt32 ram (SP cpu - 4) ?v = Ok ram1"
    and st: "step cpu P ram h = Done ?cpu1 ram1"
    using push_step_ok [OF Cons.prems(3,4) ip ins s Cons.prems(5) sp Cons.prems(7,10), of ram h]
    by blast
  have k1: "nat (IP ?cpu1) = Suc ?k" using Cons.prems(4) by simp
  have "\<exists>ram'. run_loop ?cpu1 P ram1 m {} h (n + 1) =
            run_loop (?cpu1\<lparr>SP := SP ?cpu1 - 4 * int (length ss), IP := IP ?cpu1 + int (length ss)\<rparr>)
              P ram' m {} h (n + 1 + int (length ss)) \<and>
          (\<forall>i<length ss. getInt32 ram' (SP ?cpu1 - 4 * (int i + 1)) = Ok (int32 (pushed_value ?cpu1 ss i))) \<and>
          (\<forall>a. a < SP ?cpu1 - 4 * int (length ss) \<or> SP ?cpu1 \<le> a \<longrightarrow> ram' a = ram1 a)"
    using rest ss Cons.prems(3-10) k1
    by (intro Cons.IH) simp_all
  then obtain ram' where
    run: "run_loop ?cpu1 P ram1 m {} h (n + 1) =
            run_loop (?cpu1\<lparr>SP := SP ?cpu1 - 4 * int (length ss), IP := IP ?cpu1 + int (length ss)\<rparr>)
              P ram' m {} h (n + 1 + int (length ss))"
    and mem: "\<forall>i<length ss. getInt32 ram' (SP ?cpu1 - 4 * (int i + 1)) = Ok (int32 (pushed_value ?cpu1 ss i))"
    and frame: "\<forall>a. a < SP ?cpu1 - 4 * int (length ss) \<or> SP ?cpu1 \<le> a \<longrightarrow> ram' a = ram1 a"
    by blast
  have nm: "n < m" "n < 2 ^ 53" using Cons.prems(8,9) by simp_all
  have cpu_eq: "?cpu1\<lparr>SP := SP ?cpu1 - 4 * int (length ss), IP := IP ?cpu1 + int (length ss)\<rparr> =
      cpu\<lparr>SP := SP cpu - 4 * int (length (s # ss)), IP := IP cpu + int (length (s # ss))\<rparr>"
    by (simp add: algebra_simps)
  have r1: "run_loop cpu P ram m {} h n =
      run_loop (cpu\<lparr>SP := SP cpu - 4 * int (length (s # ss)), IP := IP cpu + int (length (s # ss))\<rparr>)
        P ram' m {} h (n + int (length (s # ss)))"
    using run_loop_Done [OF Cons.prems(3) nm st] run cpu_eq by (simp add: algebra_simps)
  have top: "getInt32 ram' (SP cpu - 4) = Ok (int32 ?v)"
  proof -
    have "getInt32 ram' (SP cpu - 4) = getInt32 ram1 (SP cpu - 4)"
      using frame by (intro getInt32_cong) simp_all
    then show ?thesis using getInt32_setInt32_same [OF w] by (simp add: int32_def)
  qed
  have r2: "\<forall>i<length (s # ss). getInt32 ram' (SP cpu - 4 * (int i + 1)) =
      Ok (int32 (pushed_value cpu (s # ss) i))"
  proof (intro allI impI)
    fix i assume i: "i < length (s # ss)"
    show "getInt32 ram' (SP cpu - 4 * (int i + 1)) = Ok (int32 (pushed_value cpu (s # ss) i))"
    proof (cases i)
      case 0
      then show ?thesis using top by (simp add: pushed_value_0)
    next
      case (Suc j)
      then have "j < length ss" using i by simp
      then have "getInt32 ram' (SP ?cpu1 - 4 * (int j + 1)) = Ok (int32 (pushed_value ?cpu1 ss j))"
        using mem by blast
      then show ?thesis using Suc pushed_value_Cons [where cpu = cpu and ip = "IP cpu + 1" and ss = ss and j = j and s = s]
        by (simp add: algebra_simps)
    qed
  qed
  have r3: "\<forall>a. a < SP cpu - 4 * int (length (s # ss)) \<or> SP cpu \<le> a \<longrightarrow> ram' a = ram a"
  proof (intro allI impI)
    fix a assume a: "a < SP cpu - 4 * int (length (s # ss)) \<or> SP cpu \<le> a"
    then have "ram' a = ram1 a" using frame by auto
    also have "\<dots> = ram a" using setInt32_frame [OF w, of a] a by auto
    finally show "ram' a = ram a" .
  qed
  show ?case using r1 r2 r3 by blast
qed

lemma pops_forward:
  assumes "block_at P (nat (IP cpu)) ''POP'' dsts"
    and "list_all (\<lambda>d. is_register d \<and> d \<noteq> - 1) dsts"
    and "\<not> halted cpu" and "0 \<le> IP cpu" and "length (R cpu) = 8"
    and "0 \<le> SP cpu" and "SP cpu + 4 * int (length dsts) < RAM_SIZE"
    and "n + int (length dsts) \<le> 2 ^ 53" and "int (length (ast P)) \<le> 2 ^ 53"
  shows "\<forall>j<length dsts. \<exists>cj.
           run_loop cpu P ram (n + int j + 1) {} h n =
             Returned \<lparr>steps = n + int j + 1, run_halted = False, hitBreakpoint = False\<rparr> cj ram \<and>
           SP cj = SP cpu + 4 * (int j + 1) \<and>
           reg_read cj (Num (dsts ! j)) = getInt32 ram (SP cpu + 4 * int j)"
  using assms
proof (induction dsts arbitrary: cpu n)
  case Nil
  then show ?case by simp
next
  case (Cons d ds)
  let ?k = "nat (IP cpu)"
  from Cons.prems(1) have lt: "?k < length (ast P)" and ins: "is_reg_instr (ast P ! ?k) ''POP'' d"
    and rest: "block_at P (Suc ?k) ''POP'' ds"
    by (simp_all add: block_at_Cons)
  from Cons.prems(2) have d: "0 \<le> d \<and> d < 8 \<or> d = - 2"
    and ds: "list_all (\<lambda>d. is_register d \<and> d \<noteq> - 1) ds"
    by (auto simp add: is_register_def)
  have ip: "IP cpu < int (length (ast P))" using lt Cons.prems(4) by linarith
  have sp: "SP cpu < RAM_SIZE - 4" using Cons.prems(7) by simp
  obtain v where g: "getInt32 ram (SP cpu) = Ok v"
    and st: "step cpu P ram h =
      Done ((reg_write (cpu\<lparr>SP := SP cpu + 4\<rparr>) (Num d) v)\<lparr>IP := IP cpu + 1\<rparr>) ram"
    using pop_step_ok [OF Cons.prems(3,4) ip ins Cons.prems(6) sp Cons.prems(9), of ram h] by blast
  have v: "v = sint (word_of_int v :: 32 word)"
    using g by (auto simp add: getInt32_def split: if_splits)
  let ?cpu1 = "(reg_write (cpu\<lparr>SP := SP cpu + 4\<rparr>) (Num d) v)\<lparr>IP := IP cpu + 1\<rparr>"
  have c1: "\<not> halted ?cpu1" "IP ?cpu1 = IP cpu + 1" "SP ?cpu1 = SP cpu + 4" "length (R ?cpu1) = 8"
    using d Cons.prems(3,5) by (auto simp add: reg_write_def typed_set_def)
  have rd: "reg_read ?cpu1 (Num d) = Ok v"
    using d Cons.prems(5) v by (auto simp add: reg_write_def reg_read_def typed_set_def typed_get_def)
  have k1: "nat (IP ?cpu1) = Suc ?k" using Cons.prems(4) c1(2) by simp
  have n53: "n < 2 ^ 53" using Cons.prems(8) by simp
  have IH: "\<forall>j<length ds. \<exists>cj.
           run_loop ?cpu1 P ram (n + 1 + int j + 1) {} h (n + 1) =
             Returned \<lparr>steps = n + 1 + int j + 1, run_halted = False, hitBreakpoint = False\<rparr> cj ram \<and>
           SP cj = SP ?cpu1 + 4 * (int j + 1) \<and>
           reg_read cj (Num (ds ! j)) = getInt32 ram (SP ?cpu1 + 4 * int j)"
    using rest ds c1 Cons.prems(4,6,7,8,9) k1
    by (intro Cons.IH) simp_all
  show ?case
  proof (intro allI impI)
    fix j assume j: "j < length (d # ds)"
    show "\<exists>cj. run_loop cpu P ram (n + int j + 1) {} h n =
             Returned \<lparr>steps = n + int j + 1, run_halted = False, hitBreakpoint = False\<rparr> cj ram \<and>
           SP cj = SP cpu + 4 * (int j + 1) \<and>
           reg_read cj (Num ((d # ds) ! j)) = getInt32 ram (SP cpu + 4 * int j)"
    proof (cases j)
      case 0
      have "run_loop cpu P ram (n + 1) {} h n = run_loop ?cpu1 P ram (n + 1) {} h (n + 1)"
        using run_loop_Done [OF Cons.prems(3) _ n53 st, of "n + 1"] by simp
      also have "\<dots> = Returned \<lparr>steps = n + 1, run_halted = False, hitBreakpoint = False\<rparr> ?cpu1 ram"
        using c1(1) by (simp add: run_loop_stop)
      finally show ?thesis using 0 c1(3) rd g by (intro exI [of _ ?cpu1]) simp
    next
      case (Suc i)
      then have "i < length ds" using j by simp
      then obtain cj where
        a: "run_loop ?cpu1 P ram (n + 1 + int i + 1) {} h (n + 1) =
             Returned \<lparr>steps = n + 1 + int i + 1, run_halted = False, hitBreakpoint = False\<rparr> cj ram"
        and b: "SP cj = SP ?cpu1 + 4 * (int i + 1)"
        and c: "reg_read cj (Num (ds ! i)) = getInt32 ram (SP ?cpu1 + 4 * int i)"
        using IH by blast
      have "run_loop cpu P ram (n + 1 + int i + 1) {} h n = run_loop ?cpu1 P ram (n + 1 + int i + 1) {} h (n + 1)"
        using run_loop_Done [OF Cons.prems(3) _ n53 st, of "n + 1 + int i + 1"] by simp
      then show ?thesis using a b c Suc c1(3)
        by (intro exI [of _ cj]) (simp add: algebra_simps)
    qed
  qed
qed

lemma block_at_take:
  assumes "block_at P i opc regs"
  shows "block_at P i opc (take k regs)"
  using assms
proof (induction regs arbitrary: i k)
  case Nil
  then show ?case by simp
next
  case (Cons r rs)
  then show ?case by (cases k) (auto simp add: block_at_Cons)
qed

lemma pushes_noFault:
  assumes "run_loop cpu P ram m {} h n = Returned res c r"
    and "block_at P (nat (IP cpu)) ''PUSH'' srcs" and "list_all is_register srcs"
    and "\<not> halted cpu" and "0 \<le> IP cpu" and "length (R cpu) = 8"
    and "n + int (length srcs) \<le> m" and "int (length (ast P)) \<le> 2 ^ 53"
  shows "srcs \<noteq> [] \<longrightarrow> 4 * int (length srcs) \<le> SP cpu \<and> SP cpu \<le> RAM_SIZE"
  using assms
proof (induction srcs arbitrary: cpu ram n)
  case Nil
  then show ?case by simp
next
  case (Cons s ss)
  let ?k = "nat (IP cpu)"
  from Cons.prems(2) have lt: "?k < length (ast P)" and ins: "is_reg_instr (ast P ! ?k) ''PUSH'' s"
    and rest: "block_at P (Suc ?k) ''PUSH'' ss"
    by (simp_all add: block_at_Cons)
  from Cons.prems(3) have s: "is_register s" and ss: "list_all is_register ss"
    by simp_all
  have ip: "IP cpu < int (length (ast P))" using lt Cons.prems(5) by linarith
  have nm: "n < m" using Cons.prems(7) by simp
  obtain c1 r1 where st: "step cpu P ram h = Done c1 r1"
    and run1: "run_loop c1 P r1 m {} h (n + 1) = Returned res c r"
    using run_loop_Returned_step [OF Cons.prems(1,4) nm] by blast
  have b: "4 \<le> SP cpu" "SP cpu \<le> RAM_SIZE" and c1: "c1 = cpu\<lparr>SP := SP cpu - 4, IP := IP cpu + 1\<rparr>"
    using push_step_Done [OF Cons.prems(4,5) ip ins s Cons.prems(6,8) st] by simp_all
  have k1: "nat (IP c1) = Suc ?k" using Cons.prems(5) c1 by simp
  have "ss \<noteq> [] \<longrightarrow> 4 * int (length ss) \<le> SP c1 \<and> SP c1 \<le> RAM_SIZE"
    using run1 rest ss Cons.prems(4-8) k1 c1
    by (intro Cons.IH [of c1 r1 "n + 1"]) simp_all
  then show ?case using b c1 by (cases ss) simp_all
qed

lemma pops_noFault:
  assumes "run_loop cpu P ram m {} h n = Returned res c r"
    and "block_at P (nat (IP cpu)) ''POP'' dsts"
    and "list_all (\<lambda>d. is_register d \<and> d \<noteq> - 1) dsts"
    and "\<not> halted cpu" and "0 \<le> IP cpu"
    and "n + int (length dsts) \<le> m" and "int (length (ast P)) \<le> 2 ^ 53"
  shows "dsts \<noteq> [] \<longrightarrow> 0 \<le> SP cpu \<and> SP cpu + 4 * int (length dsts) < RAM_SIZE"
  using assms
proof (induction dsts arbitrary: cpu ram n)
  case Nil
  then show ?case by simp
next
  case (Cons d ds)
  let ?k = "nat (IP cpu)"
  from Cons.prems(2) have lt: "?k < length (ast P)" and ins: "is_reg_instr (ast P ! ?k) ''POP'' d"
    and rest: "block_at P (Suc ?k) ''POP'' ds"
    by (simp_all add: block_at_Cons)
  from Cons.prems(3) have d: "0 \<le> d \<and> d < 8 \<or> d = - 2"
    and ds: "list_all (\<lambda>d. is_register d \<and> d \<noteq> - 1) ds"
    by (auto simp add: is_register_def)
  have ip: "IP cpu < int (length (ast P))" using lt Cons.prems(5) by linarith
  have nm: "n < m" using Cons.prems(6) by simp
  obtain c1 r1 where st: "step cpu P ram h = Done c1 r1"
    and run1: "run_loop c1 P r1 m {} h (n + 1) = Returned res c r"
    using run_loop_Returned_step [OF Cons.prems(1,4) nm] by blast
  have b: "0 \<le> SP cpu" "SP cpu < RAM_SIZE - 4"
    using pop_step_Done [OF Cons.prems(4,5) ip ins st] by simp_all
  obtain v where "step cpu P ram h =
      Done ((reg_write (cpu\<lparr>SP := SP cpu + 4\<rparr>) (Num d) v)\<lparr>IP := IP cpu + 1\<rparr>) ram"
    using pop_step_ok [OF Cons.prems(4,5) ip ins b Cons.prems(7), of ram h] by blast
  then have c1: "c1 = (reg_write (cpu\<lparr>SP := SP cpu + 4\<rparr>) (Num d) v)\<lparr>IP := IP cpu + 1\<rparr>"
    using st by simp
  have c1': "\<not> halted c1" "IP c1 = IP cpu + 1" "SP c1 = SP cpu + 4"
    using d Cons.prems(4) c1 by (auto simp add: reg_write_def)
  have k1: "nat (IP c1) = Suc ?k" using Cons.prems(5) c1'(2) by simp
  have "ds \<noteq> [] \<longrightarrow> 0 \<le> SP c1 \<and> SP c1 + 4 * int (length ds) < RAM_SIZE"
    using run1 rest ds Cons.prems(5,6,7) k1 c1'
    by (intro Cons.IH [of c1 r1 "n + 1"]) simp_all
  then show ?case using b c1'(3) by (cases ds) simp_all
qed

lemma int32_exact:
  assumes "- (2 ^ 31) \<le> v" and "v < 2 ^ 31"
  shows "int32 v = v"
  using assms by (simp add: int32_def sint_word_of_int_32 signed_take_bit_int_eq_self)

lemma int32_sint: "int32 (sint (w :: 32 word)) = sint w"
  by (simp add: int32_def)

lemma pushed_value_take:
  assumes "i < k"
  shows "pushed_value cpu (take k regs) i = pushed_value cpu regs i"
  using assms by (simp add: pushed_value_def)

text \<open>
  Claim C7 as the spec states it, N PUSHes followed by N POPs into registers restore SP,
  fails when a POP names SP as its destination: \<^verbatim>\<open>POP SP\<close> increments SP and then
  loads it with the popped value. After \<^verbatim>\<open>PUSH R0; POP SP\<close> with R0 = 1000, no
  fault has occurred and SP is 1000, not the 65532 it was before the PUSH.
\<close>

theorem pop_into_sp_counterexample:
  "(case run (createCPU\<lparr>R := [1000, 0, 0, 0, 0, 0, 0, 0]\<rparr>) push_pop_sp_program (\<lambda>_. 0) (no_opts 2) of
      Returned res c r \<Rightarrow> steps res = 2 \<and> SP c = 1000
    | Raised e c r \<Rightarrow> False
    | RunOutsideModel \<Rightarrow> False) \<and>
   SP (createCPU\<lparr>R := [1000, 0, 0, 0, 0, 0, 0, 0]\<rparr>) = 65532"
  by (simp add: run_def run_loop.simps step_def push_pop_sp_program_def prog_defs exec_defs
      exec_PUSH_def exec_POP_def setInt32_def getInt32_def le_word_def RAM_SIZE_def
      STACK_START_def)

text \<open>
  Claim C7, amended. Let the program hold, from the current instruction on, N PUSH
  instructions on registers (any of R0..R7, SP and BP) followed by N POP instructions into
  registers other than SP (R0..R7 or BP), and let running these 2N steps raise no fault.
  (The program is an array of JavaScript, of at most \<open>2^53\<close> instructions, and the
  register file has its 8 entries.) Then the run restores SP to its value \<open>SP\<^sub>0\<close> before
  the first PUSH. Moreover, for every \<open>k \<le> 2N\<close> the run of \<open>k\<close> steps returns normally
  after exactly \<open>k\<close> steps, and then:

  \<^item> \<open>SP = SP\<^sub>0 - 4k\<close> while pushing (\<open>k \<le> N\<close>) and \<open>SP = SP\<^sub>0 - 4(2N - k)\<close> while
    popping: each PUSH lowers SP by 4 and each POP raises it by 4;
  \<^item> the memory holds the value of PUSH number \<open>i\<close> (from 0) at the address
    \<open>SP\<^sub>0 - 4(i + 1)\<close>, the stack pointer as that PUSH has lowered it, for each PUSH
    executed so far, and is unchanged below and above these words: a PUSH lowers SP and
    then writes at the new SP, and a POP writes nothing;
  \<^item> right after the POP that is step \<open>k > N\<close>, its destination holds the word of the
    memory at the address \<open>SP - 4\<close>, where SP stood before this POP raised it (the POP
    reads at SP and then raises it), and this is the value of PUSH number \<open>2N - k\<close>: the
    values come back in reverse order.

  The value of a PUSH is the content of its register at that PUSH as the memory keeps it,
  in 32 bits. That is the content itself for R0..R7 and for SP, and for BP when BP is in
  the signed 32-bit range (BP is a number and can hold more).
\<close>

theorem push_pop_balance:
  assumes pushes: "block_at P (nat (IP cpu)) ''PUSH'' srcs"
    and pops: "block_at P (nat (IP cpu) + length srcs) ''POP'' dsts"
    and len: "length dsts = length srcs"
    and srcs: "list_all is_register srcs"
    and dsts: "list_all (\<lambda>d. is_register d \<and> d \<noteq> - 1) dsts"
    and nh: "\<not> halted cpu" and ip: "0 \<le> IP cpu" and regs: "length (R cpu) = 8"
    and size: "int (length (ast P)) \<le> 2 ^ 53"
    and nofault: "run cpu P ram \<lparr>maxSteps = Some (2 * int (length srcs)), breakpoints = None, onSys = h\<rparr>
        = Returned res c r"
  shows "SP c = SP cpu \<and>
    (\<forall>k\<le>2 * length srcs. \<exists>ck rk.
       run cpu P ram \<lparr>maxSteps = Some (int k), breakpoints = None, onSys = h\<rparr> =
         Returned \<lparr>steps = int k, run_halted = False, hitBreakpoint = False\<rparr> ck rk \<and>
       SP ck = (if k \<le> length srcs then SP cpu - 4 * int k
                else SP cpu - 4 * int (2 * length srcs - k)) \<and>
       (\<forall>i<min k (length srcs).
          getInt32 rk (SP cpu - 4 * (int i + 1)) = Ok (int32 (pushed_value cpu srcs i))) \<and>
       (\<forall>a. a < SP cpu - 4 * int (min k (length srcs)) \<or> SP cpu \<le> a \<longrightarrow> rk a = ram a) \<and>
       (length srcs < k \<longrightarrow>
          reg_read ck (Num (dsts ! (k - length srcs - 1))) = getInt32 rk (SP ck - 4) \<and>
          reg_read ck (Num (dsts ! (k - length srcs - 1))) =
            Ok (int32 (pushed_value cpu srcs (2 * length srcs - k))))) \<and>
    (\<forall>i<length srcs. srcs ! i \<noteq> - 2 \<or> (- (2 ^ 31) \<le> BP cpu \<and> BP cpu < 2 ^ 31) \<longrightarrow>
       int32 (pushed_value cpu srcs i) = pushed_value cpu srcs i)"
proof -
  define N where "N = length srcs"
  have N53: "2 * int N \<le> 2 ^ 53"
    using pushes pops len size by (simp add: block_at_def N_def)
  have H: "run_loop cpu P ram (2 * int N) {} h 0 = Returned res c r"
    using nofault by (simp add: run_def N_def)
  have b1: "4 * int N \<le> SP cpu \<and> SP cpu \<le> RAM_SIZE" if "N \<noteq> 0"
    using pushes_noFault [OF H pushes srcs nh ip regs _ size] that by (simp add: N_def)
  have all: "\<exists>ck rk.
       run_loop cpu P ram (int k) {} h 0 =
         Returned \<lparr>steps = int k, run_halted = False, hitBreakpoint = False\<rparr> ck rk \<and>
       SP ck = (if k \<le> N then SP cpu - 4 * int k else SP cpu - 4 * int (2 * N - k)) \<and>
       (\<forall>i<min k N. getInt32 rk (SP cpu - 4 * (int i + 1)) = Ok (int32 (pushed_value cpu srcs i))) \<and>
       (\<forall>a. a < SP cpu - 4 * int (min k N) \<or> SP cpu \<le> a \<longrightarrow> rk a = ram a) \<and>
       (N < k \<longrightarrow>
          reg_read ck (Num (dsts ! (k - N - 1))) = getInt32 rk (SP ck - 4) \<and>
          reg_read ck (Num (dsts ! (k - N - 1))) = Ok (int32 (pushed_value cpu srcs (2 * N - k))))"
    if k: "k \<le> 2 * N" for k
  proof (cases "N = 0")
    case True
    then have "k = 0" using k by simp
    then show ?thesis using nh True by (simp add: run_loop_stop)
  next
    case False
    then have ne: "srcs \<noteq> []" "dsts \<noteq> []" using len by (auto simp add: N_def)
    have b: "4 * int N \<le> SP cpu" "SP cpu \<le> RAM_SIZE"
      using b1 [OF False] by simp_all
    let ?cN = "cpu\<lparr>SP := SP cpu - 4 * int N, IP := IP cpu + int N\<rparr>"
    have cN: "\<not> halted ?cN" "0 \<le> IP ?cN" "length (R ?cN) = 8" "nat (IP ?cN) = nat (IP cpu) + N"
      using nh ip regs by simp_all
    have popsN: "block_at P (nat (IP ?cN)) ''POP'' dsts"
      using pops cN(4) by (simp add: N_def)
    obtain ram2 where "run_loop cpu P ram (2 * int N) {} h 0 = run_loop ?cN P ram2 (2 * int N) {} h (0 + int N)"
      using pushes_forward [OF pushes srcs nh ip regs _ _ _ N53 size, of 0 ram h] b
      by (auto simp add: N_def)
    then have HN: "run_loop ?cN P ram2 (2 * int N) {} h (int N) = Returned res c r"
      using H by simp
    have b2: "0 \<le> SP ?cN" "SP ?cN + 4 * int (length dsts) < RAM_SIZE"
      using pops_noFault [OF HN popsN dsts cN(1,2) _ size] ne len by (simp_all add: N_def)
    show ?thesis
    proof (cases "k \<le> N")
      case True
      let ?ck = "cpu\<lparr>SP := SP cpu - 4 * int k, IP := IP cpu + int k\<rparr>"
      have lk: "length (take k srcs) = k" using True by (simp add: N_def)
      have k53: "int k \<le> 2 ^ 53" using True N53 by simp
      have tk: "list_all is_register (take k srcs)"
        using srcs by (auto simp add: list_all_iff dest: in_set_takeD)
      obtain rk where rk: "run_loop cpu P ram (int k) {} h 0 = run_loop ?ck P rk (int k) {} h (0 + int k)"
        and mem: "\<forall>i<k. getInt32 rk (SP cpu - 4 * (int i + 1)) =
            Ok (int32 (pushed_value cpu (take k srcs) i))"
        and frame: "\<forall>a. a < SP cpu - 4 * int k \<or> SP cpu \<le> a \<longrightarrow> rk a = ram a"
        using pushes_forward [OF block_at_take [OF pushes, of k] tk nh ip regs _ _ _ k53 size,
            of 0 ram h] b True lk
        by auto
      have ret: "run_loop cpu P ram (int k) {} h 0 =
          Returned \<lparr>steps = int k, run_halted = False, hitBreakpoint = False\<rparr> ?ck rk"
        using rk nh by (simp add: run_loop_stop)
      have mem': "\<forall>i<min k N. getInt32 rk (SP cpu - 4 * (int i + 1)) =
            Ok (int32 (pushed_value cpu srcs i))"
        using mem True by (simp add: pushed_value_take)
      have frame': "\<forall>a. a < SP cpu - 4 * int (min k N) \<or> SP cpu \<le> a \<longrightarrow> rk a = ram a"
        using frame True by simp
      show ?thesis using True ret mem' frame'
        by (intro exI [of _ ?ck] exI [of _ rk]) simp
    next
      case False
      define j where "j = k - N - 1"
      have j: "j < length dsts" "int k = int N + int j + 1" "N - 1 - j < length srcs"
        "2 * N - k = N - 1 - j"
        using False k len by (simp_all add: j_def N_def)
      have k53: "int k \<le> 2 ^ 53" using k N53 by simp
      have n53: "int N + int (length dsts) \<le> 2 ^ 53" using N53 len by (simp add: N_def)
      obtain rk where rk: "run_loop cpu P ram (int k) {} h 0 = run_loop ?cN P rk (int k) {} h (0 + int N)"
        and mem: "\<forall>i<length srcs. getInt32 rk (SP cpu - 4 * (int i + 1)) =
            Ok (int32 (pushed_value cpu srcs i))"
        and frame: "\<forall>a. a < SP cpu - 4 * int (length srcs) \<or> SP cpu \<le> a \<longrightarrow> rk a = ram a"
        using pushes_forward [OF pushes srcs nh ip regs _ _ _ k53 size, of 0 ram h] b False
        by (auto simp add: N_def)
      obtain cj where
        a: "run_loop ?cN P rk (int N + int j + 1) {} h (int N) =
             Returned \<lparr>steps = int N + int j + 1, run_halted = False, hitBreakpoint = False\<rparr> cj rk"
        and b': "SP cj = SP ?cN + 4 * (int j + 1)"
        and c: "reg_read cj (Num (dsts ! j)) = getInt32 rk (SP ?cN + 4 * int j)"
        using pops_forward [OF popsN dsts cN(1,2,3) b2 n53 size, of rk h] j(1) by blast
      have addr: "SP ?cN + 4 * int j = SP cpu - 4 * (int (N - 1 - j) + 1)"
        using j(1) len by (simp add: N_def algebra_simps of_nat_diff)
      have "getInt32 rk (SP cpu - 4 * (int (N - 1 - j) + 1)) =
          Ok (int32 (pushed_value cpu srcs (N - 1 - j)))"
        using mem j(3) by blast
      then have val: "reg_read cj (Num (dsts ! j)) = Ok (int32 (pushed_value cpu srcs (N - 1 - j)))"
        using c by (simp only: addr)
      have "SP ?cN + 4 * int j = SP cj - 4" using b' by simp
      then have rd: "reg_read cj (Num (dsts ! j)) = getInt32 rk (SP cj - 4)"
        using c by simp
      have sp: "SP cj = SP cpu - 4 * int (2 * N - k)"
        using b' j(1,4) len by (simp add: N_def algebra_simps of_nat_diff)
      have ret: "run_loop cpu P ram (int k) {} h 0 =
          Returned \<lparr>steps = int k, run_halted = False, hitBreakpoint = False\<rparr> cj rk"
        using rk a j(2) by simp
      have mem': "\<forall>i<min k N. getInt32 rk (SP cpu - 4 * (int i + 1)) =
            Ok (int32 (pushed_value cpu srcs i))"
        using mem False by (simp add: N_def)
      have frame': "\<forall>a. a < SP cpu - 4 * int (min k N) \<or> SP cpu \<le> a \<longrightarrow> rk a = ram a"
        using frame False by (simp add: N_def)
      show ?thesis using False val rd sp j(4) ret mem' frame'
        by (intro exI [of _ cj] exI [of _ rk]) (simp add: j_def)
    qed
  qed
  have fin: "SP c = SP cpu"
  proof -
    obtain ck rk where "run_loop cpu P ram (int (2 * N)) {} h 0 =
         Returned \<lparr>steps = int (2 * N), run_halted = False, hitBreakpoint = False\<rparr> ck rk"
      and "SP ck = (if 2 * N \<le> N then SP cpu - 4 * int (2 * N) else SP cpu - 4 * int (2 * N - 2 * N))"
      using all [of "2 * N"] by auto
    then show ?thesis using H by (auto split: if_splits)
  qed
  have all': "\<forall>k\<le>2 * length srcs. \<exists>ck rk.
       run_loop cpu P ram (int k) {} h 0 =
         Returned \<lparr>steps = int k, run_halted = False, hitBreakpoint = False\<rparr> ck rk \<and>
       SP ck = (if k \<le> length srcs then SP cpu - 4 * int k
                else SP cpu - 4 * int (2 * length srcs - k)) \<and>
       (\<forall>i<min k (length srcs).
          getInt32 rk (SP cpu - 4 * (int i + 1)) = Ok (int32 (pushed_value cpu srcs i))) \<and>
       (\<forall>a. a < SP cpu - 4 * int (min k (length srcs)) \<or> SP cpu \<le> a \<longrightarrow> rk a = ram a) \<and>
       (length srcs < k \<longrightarrow>
          reg_read ck (Num (dsts ! (k - length srcs - 1))) = getInt32 rk (SP ck - 4) \<and>
          reg_read ck (Num (dsts ! (k - length srcs - 1))) =
            Ok (int32 (pushed_value cpu srcs (2 * length srcs - k))))"
    using all unfolding N_def by blast
  have exact: "int32 (pushed_value cpu srcs i) = pushed_value cpu srcs i"
    if i: "i < length srcs" and ok: "srcs ! i \<noteq> - 2 \<or> (- (2 ^ 31) \<le> BP cpu \<and> BP cpu < 2 ^ 31)" for i
  proof -
    have N0: "N \<noteq> 0" using i by (auto simp add: N_def)
    have reg: "is_register (srcs ! i)" using srcs i by (simp add: list_all_length)
    consider (sp) "srcs ! i = - 1" | (bp) "srcs ! i = - 2" | (gp) "0 \<le> srcs ! i" "srcs ! i < 8"
      using reg by (auto simp add: is_register_def)
    then show ?thesis
    proof cases
      case sp
      have "4 * int N \<le> SP cpu" "SP cpu \<le> RAM_SIZE" using b1 [OF N0] by simp_all
      then have "- (2 ^ 31) \<le> SP cpu - 4 * int i" "SP cpu - 4 * int i < 2 ^ 31"
        using i by (simp_all add: N_def RAM_SIZE_def)
      then show ?thesis using sp by (simp add: pushed_value_def reg_value_def int32_exact)
    next
      case bp
      then show ?thesis using ok by (simp add: pushed_value_def reg_value_def int32_exact)
    next
      case gp
      then show ?thesis by (simp add: pushed_value_def reg_value_def int32_sint)
    qed
  qed
  show ?thesis using fin all' exact by (simp add: run_def)
qed

theorem push_pop_balance_witness:
  "\<exists>c4 r4 c5 r5 c6 r6.
     run (createCPU\<lparr>R := [11, 0, 0, 0, 0, 0, 0, 0]\<rparr>) push_pop_program (\<lambda>_. 0)
         \<lparr>maxSteps = Some 4, breakpoints = None, onSys = None\<rparr> =
       Returned \<lparr>steps = 4, run_halted = False, hitBreakpoint = False\<rparr> c4 r4 \<and>
     SP c4 = 65524 \<and> reg_read c4 (Num 1) = Ok 65532 \<and>
     run (createCPU\<lparr>R := [11, 0, 0, 0, 0, 0, 0, 0]\<rparr>) push_pop_program (\<lambda>_. 0)
         \<lparr>maxSteps = Some 5, breakpoints = None, onSys = None\<rparr> =
       Returned \<lparr>steps = 5, run_halted = False, hitBreakpoint = False\<rparr> c5 r5 \<and>
     SP c5 = 65528 \<and> reg_read c5 (Num 2) = Ok 65528 \<and>
     run (createCPU\<lparr>R := [11, 0, 0, 0, 0, 0, 0, 0]\<rparr>) push_pop_program (\<lambda>_. 0)
         \<lparr>maxSteps = Some 6, breakpoints = None, onSys = None\<rparr> =
       Returned \<lparr>steps = 6, run_halted = False, hitBreakpoint = False\<rparr> c6 r6 \<and>
     SP c6 = 65532 \<and> reg_read c6 (Num (- 2)) = Ok 11 \<and>
     getInt32 r6 65528 = Ok 11 \<and> getInt32 r6 65524 = Ok 65528 \<and> getInt32 r6 65520 = Ok 65532"
proof -
  let ?cpu = "createCPU\<lparr>R := [11, 0, 0, 0, 0, 0, 0, 0]\<rparr>"
  let ?srcs = "[0, - 1, - 2 :: int]"
  let ?dsts = "[1, 2, - 2 :: int]"
  have "\<exists>res c r. run ?cpu push_pop_program (\<lambda>_. 0)
      \<lparr>maxSteps = Some (2 * int (length ?srcs)), breakpoints = None, onSys = None\<rparr> =
        Returned res c r"
    by (simp add: run_def run_loop.simps step_def push_pop_program_def prog_defs exec_defs
        exec_PUSH_def exec_POP_def setInt32_def getInt32_def RAM_SIZE_def STACK_START_def)
  then obtain res c r where nf: "run ?cpu push_pop_program (\<lambda>_. 0)
      \<lparr>maxSteps = Some (2 * int (length ?srcs)), breakpoints = None, onSys = None\<rparr> =
        Returned res c r"
    by blast
  have b1: "block_at push_pop_program (nat (IP ?cpu)) ''PUSH'' ?srcs"
    by (simp add: block_at_def is_reg_instr_def push_pop_program_def prog_defs)
  have b2: "block_at push_pop_program (nat (IP ?cpu) + length ?srcs) ''POP'' ?dsts"
    by (simp add: block_at_def is_reg_instr_def push_pop_program_def prog_defs)
  have pv: "int32 (pushed_value ?cpu ?srcs 0) = 11" "int32 (pushed_value ?cpu ?srcs 1) = 65528"
    "int32 (pushed_value ?cpu ?srcs 2) = 65532"
    by (simp_all add: pushed_value_def reg_value_def int32_def prog_defs STACK_START_def RAM_SIZE_def)
  have sp0: "SP ?cpu = 65532" by (simp add: prog_defs STACK_START_def RAM_SIZE_def)
  have all: "\<forall>k\<le>2 * length ?srcs. \<exists>ck rk.
       run ?cpu push_pop_program (\<lambda>_. 0) \<lparr>maxSteps = Some (int k), breakpoints = None, onSys = None\<rparr> =
         Returned \<lparr>steps = int k, run_halted = False, hitBreakpoint = False\<rparr> ck rk \<and>
       SP ck = (if k \<le> length ?srcs then SP ?cpu - 4 * int k
                else SP ?cpu - 4 * int (2 * length ?srcs - k)) \<and>
       (\<forall>i<min k (length ?srcs).
          getInt32 rk (SP ?cpu - 4 * (int i + 1)) = Ok (int32 (pushed_value ?cpu ?srcs i))) \<and>
       (\<forall>a. a < SP ?cpu - 4 * int (min k (length ?srcs)) \<or> SP ?cpu \<le> a \<longrightarrow> rk a = (\<lambda>_. 0) a) \<and>
       (length ?srcs < k \<longrightarrow>
          reg_read ck (Num (?dsts ! (k - length ?srcs - 1))) = getInt32 rk (SP ck - 4) \<and>
          reg_read ck (Num (?dsts ! (k - length ?srcs - 1))) =
            Ok (int32 (pushed_value ?cpu ?srcs (2 * length ?srcs - k))))"
    using push_pop_balance [OF b1 b2 _ _ _ _ _ _ _ nf]
    by (simp add: prog_defs is_register_def push_pop_program_def)
  have k4: "\<exists>ck rk.
       run ?cpu push_pop_program (\<lambda>_. 0) \<lparr>maxSteps = Some 4, breakpoints = None, onSys = None\<rparr> =
         Returned \<lparr>steps = 4, run_halted = False, hitBreakpoint = False\<rparr> ck rk \<and>
       SP ck = 65524 \<and> reg_read ck (Num 1) = Ok 65532"
    using all [rule_format, of 4] pv sp0 by auto
  have k5: "\<exists>ck rk.
       run ?cpu push_pop_program (\<lambda>_. 0) \<lparr>maxSteps = Some 5, breakpoints = None, onSys = None\<rparr> =
         Returned \<lparr>steps = 5, run_halted = False, hitBreakpoint = False\<rparr> ck rk \<and>
       SP ck = 65528 \<and> reg_read ck (Num 2) = Ok 65528"
    using all [rule_format, of 5] pv sp0 by auto
  have k6: "\<exists>ck rk.
       run ?cpu push_pop_program (\<lambda>_. 0) \<lparr>maxSteps = Some 6, breakpoints = None, onSys = None\<rparr> =
         Returned \<lparr>steps = 6, run_halted = False, hitBreakpoint = False\<rparr> ck rk \<and>
       SP ck = 65532 \<and> reg_read ck (Num (- 2)) = Ok 11 \<and>
       getInt32 rk 65528 = Ok 11 \<and> getInt32 rk 65524 = Ok 65528 \<and> getInt32 rk 65520 = Ok 65532"
  proof -
    obtain ck rk where
      a: "run ?cpu push_pop_program (\<lambda>_. 0) \<lparr>maxSteps = Some (int 6), breakpoints = None, onSys = None\<rparr> =
         Returned \<lparr>steps = int 6, run_halted = False, hitBreakpoint = False\<rparr> ck rk"
      and b: "SP ck = (if 6 \<le> length ?srcs then SP ?cpu - 4 * int 6
                else SP ?cpu - 4 * int (2 * length ?srcs - 6))"
      and m: "\<forall>i<min 6 (length ?srcs).
          getInt32 rk (SP ?cpu - 4 * (int i + 1)) = Ok (int32 (pushed_value ?cpu ?srcs i))"
      and d: "length ?srcs < 6 \<longrightarrow>
          reg_read ck (Num (?dsts ! (6 - length ?srcs - 1))) =
            Ok (int32 (pushed_value ?cpu ?srcs (2 * length ?srcs - 6)))"
      using all [rule_format, of 6] by auto
    have m0: "getInt32 rk (SP ?cpu - 4 * (int 0 + 1)) = Ok (int32 (pushed_value ?cpu ?srcs 0))"
      using m by (intro m [rule_format]) simp
    have m1: "getInt32 rk (SP ?cpu - 4 * (int 1 + 1)) = Ok (int32 (pushed_value ?cpu ?srcs 1))"
      using m by (intro m [rule_format]) simp
    have m2: "getInt32 rk (SP ?cpu - 4 * (int 2 + 1)) = Ok (int32 (pushed_value ?cpu ?srcs 2))"
      using m by (intro m [rule_format]) simp
    show ?thesis
      using a b d m0 m1 m2 pv sp0 by (intro exI [of _ ck] exI [of _ rk]) simp
  qed
  show ?thesis using k4 k5 k6 by blast
qed

section \<open>Properties of the assembler\<close>

subsection \<open>Auxiliary facts about pass 1 and pass 2\<close>

lemma and_then_simps [simp]: "and_then (Inl e) f = Inl e" "and_then (Inr x) f = f x"
  by (simp_all add: and_then_def)

lemma and_then_eq_Inr [simp]: "and_then m f = Inr y \<longleftrightarrow> (\<exists>x. m = Inr x \<and> f x = Inr y)"
  by (cases m) auto

lemma data_extends_refl [simp]: "data_extends st st"
  by (simp add: data_extends_def)

lemma data_extends_trans: "data_extends a b \<Longrightarrow> data_extends b c \<Longrightarrow> data_extends a c"
  unfolding data_extends_def by (metis (no_types, lifting) le_trans less_le_trans)

lemma only_data_emitted_refl [simp]: "only_data_emitted st st"
  by (simp add: only_data_emitted_def)

lemma only_data_emitted_trans:
  "only_data_emitted a b \<Longrightarrow> only_data_emitted b c \<Longrightarrow> only_data_emitted a c"
  unfolding only_data_emitted_def using data_extends_trans by auto

lemma only_data_emitted_emit_byte [simp]: "only_data_emitted st (emit_byte b st)"
  by (simp add: only_data_emitted_def data_extends_def emit_byte_def)

lemma emit_bytes_only_data:
  "emit_bytes n bs st = Inr st' \<Longrightarrow> only_data_emitted st st'"
proof (induction bs arbitrary: st)
  case Nil
  then show ?case by simp
next
  case (Cons b bs)
  then have "only_data_emitted (emit_byte b st) st'" by (simp split: if_splits)
  then show ?case using only_data_emitted_trans only_data_emitted_emit_byte by blast
qed

lemma emit_words_only_data:
  "emit_words n vs st = Inr st' \<Longrightarrow> only_data_emitted st st'"
proof (induction vs arbitrary: st)
  case Nil
  then show ?case by simp
next
  case (Cons v vs)
  let ?s1 = "emit_byte (ucast (word_of_int v :: 32 word)) st"
  let ?s2 = "emit_byte (ucast (drop_bit 8 (word_of_int v :: 32 word))) ?s1"
  let ?s3 = "emit_byte (ucast (drop_bit 16 (word_of_int v :: 32 word))) ?s2"
  let ?s4 = "emit_byte (ucast (drop_bit 24 (word_of_int v :: 32 word))) ?s3"
  from Cons have "only_data_emitted ?s4 st'" by (simp split: if_splits)
  moreover have "only_data_emitted st ?s4"
    by (meson only_data_emitted_trans only_data_emitted_emit_byte)
  ultimately show ?case using only_data_emitted_trans by blast
qed

lemma word_directive_only_data:
  "word_directive n parts st = Inr st' \<Longrightarrow> only_data_emitted st st'"
  by (auto simp add: word_directive_def split: if_splits dest: emit_words_only_data)

lemma byte_directive_only_data:
  "byte_directive n parts st = Inr st' \<Longrightarrow> only_data_emitted st st'"
  by (auto simp add: byte_directive_def split: if_splits dest: emit_bytes_only_data)

lemma string_directive_only_data:
  "string_directive n t st = Inr st' \<Longrightarrow> only_data_emitted st st'"
  by (auto simp add: string_directive_def split: option.splits dest: emit_bytes_only_data)


lemma pass1_directive_cases:
  assumes "pass1_directive n t st = Inr st'"
  shows "st' = st\<lparr>inDataSection := True\<rparr> \<or>
         st' = st\<lparr>textStart := currentAddress st, inDataSection := False\<rparr> \<or>
         (toUpperCase (first_token t) = ''.ORG'' \<and> (\<exists>a. st' = st\<lparr>currentAddress := a\<rparr>)) \<or>
         only_data_emitted st st'"
  using assms
  by (auto simp add: pass1_directive_def Let_def
      split: if_splits parsed.splits
      dest: word_directive_only_data byte_directive_only_data string_directive_only_data)

lemma pass1_label_cases:
  assumes "pass1_label n t st = Inr st'"
  shows "\<exists>st1. labels st (trim (takeWhile (\<lambda>c. c \<noteq> CHR '':'') t)) = None \<and>
           st1 = st\<lparr>labels := (labels st)(trim (takeWhile (\<lambda>c. c \<noteq> CHR '':'') t) \<mapsto>
                  (if inDataSection st then int (dataPtr st) else currentAddress st))\<rparr> \<and>
           (only_data_emitted st1 st' \<or> (\<exists>opc src. st' = push_instruction opc n src st1))"
  using assms
  by (auto simp add: pass1_label_def Let_def has_key_def
      split: if_splits dest: word_directive_only_data)

lemma pass1_line_cases:
  assumes "pass1_line n ln st = Inr st'"
  shows "(defines_label ln = None \<and>
            (st' = st\<lparr>inDataSection := True\<rparr> \<or>
             st' = st\<lparr>textStart := currentAddress st, inDataSection := False\<rparr> \<or>
             (is_org_line ln \<and> (\<exists>a. st' = st\<lparr>currentAddress := a\<rparr>)) \<or>
             only_data_emitted st st' \<or>
             (\<exists>opc src. st' = push_instruction opc n src st))) \<or>
         (\<exists>name st1. defines_label ln = Some name \<and> labels st name = None \<and>
            st1 = st\<lparr>labels := (labels st)(name \<mapsto>
                   (if inDataSection st then int (dataPtr st) else currentAddress st))\<rparr> \<and>
            (only_data_emitted st1 st' \<or> (\<exists>opc src. st' = push_instruction opc n src st1)))"
proof -
  let ?t = "trim ln"
  consider (skip) "?t = [] \<or> starts_with ?t '';'' \<or> starts_with ?t ''//''"
    | (dir) "\<not> (?t = [] \<or> starts_with ?t '';'' \<or> starts_with ?t ''//'')" "starts_with ?t ''.''"
    | (lab) "\<not> (?t = [] \<or> starts_with ?t '';'' \<or> starts_with ?t ''//'')" "\<not> starts_with ?t ''.''"
        "CHR '':'' \<in> set ?t"
    | (ins) "\<not> (?t = [] \<or> starts_with ?t '';'' \<or> starts_with ?t ''//'')" "\<not> starts_with ?t ''.''"
        "CHR '':'' \<notin> set ?t"
    by blast
  then show ?thesis
  proof cases
    case skip
    then have "st' = st" "defines_label ln = None"
      using assms by (auto simp add: pass1_line_def defines_label_def Let_def)
    then show ?thesis by simp
  next
    case dir
    then have d: "pass1_directive n ?t st = Inr st'" and n: "defines_label ln = None"
      using assms by (auto simp add: pass1_line_def defines_label_def Let_def)
    show ?thesis using pass1_directive_cases [OF d] n dir(2)
      by (auto simp add: is_org_line_def)
  next
    case lab
    then have l: "pass1_label n ?t st = Inr st'"
      and n: "defines_label ln = Some (trim (takeWhile (\<lambda>c. c \<noteq> CHR '':'') ?t))"
      using assms by (auto simp add: pass1_line_def defines_label_def Let_def)
    show ?thesis using pass1_label_cases [OF l] n by auto
  next
    case ins
    then have n: "defines_label ln = None"
      by (auto simp add: defines_label_def Let_def)
    have "st' = st \<or> (\<exists>opc src. st' = push_instruction opc n src st)"
      using assms ins by (auto simp add: pass1_line_def Let_def split: if_splits)
    then show ?thesis using n by auto
  qed
qed


lemma push_instruction_simps [simp]:
  "labels (push_instruction opc n src st) = labels st"
  "ast (push_instruction opc n src st) = ast st @ [\<lparr>op = opc, operands = [], line = n, source = src\<rparr>]"
  "currentAddress (push_instruction opc n src st) = nearest_double (currentAddress st + 1)"
  "dataPtr (push_instruction opc n src st) = dataPtr st"
  "dataSection (push_instruction opc n src st) = dataSection st"
  "inDataSection (push_instruction opc n src st) = inDataSection st"
  by (simp_all add: push_instruction_def)

lemma pass1_line_labels:
  assumes "pass1_line n ln st = Inr st'"
  shows "labels st \<subseteq>\<^sub>m labels st'"
  using pass1_line_cases [OF assms]
  by (auto simp add: only_data_emitted_def map_le_def)

lemma pass1_line_label_value:
  assumes "pass1_line n ln st = Inr st'" and "defines_label ln = Some name"
  shows "labels st' name = Some (if inDataSection st then int (dataPtr st) else currentAddress st)"
  using pass1_line_cases [OF assms(1)] assms(2)
  by (auto simp add: only_data_emitted_def)

lemma pass1_line_ast:
  assumes "pass1_line n ln st = Inr st'"
  shows "\<exists>ext. ast st' = ast st @ ext \<and> list_all (\<lambda>ins. line ins = n) ext"
  using pass1_line_cases [OF assms]
  by (auto simp add: only_data_emitted_def)

lemma pass1_line_data:
  assumes "pass1_line n ln st = Inr st'"
  shows "data_extends st st'"
  using pass1_line_cases [OF assms]
  by (auto simp add: only_data_emitted_def data_extends_def)

text \<open>The code address counts the instructions recorded, by \<^verbatim>\<open>currentAddress++\<close>.\<close>

lemma counted_0 [simp]: "counted a 0 = a"
  by (simp add: counted_def)

lemma counted_Suc: "counted a (Suc k) = nearest_double (counted a k + 1)"
  by (simp add: counted_def)

lemma counted_add: "counted (counted a j) k = counted a (j + k)"
proof -
  have "counted a (k + j) = counted (counted a j) k"
    by (simp add: counted_def funpow_add)
  then show ?thesis by (simp add: add.commute)
qed

lemma counted_exact:
  assumes "0 \<le> a" and "a + int k \<le> 2 ^ 53"
  shows "counted a k = a + int k"
  using assms
proof (induction k)
  case 0
  then show ?case by simp
next
  case (Suc k)
  then have "counted a k = a + int k" by simp
  moreover have "nearest_double (a + int k + 1) = a + int k + 1"
    using Suc.prems by (intro nearest_double_exact) simp
  ultimately show ?case by (simp add: counted_Suc)
qed

lemma pass1_line_address:
  assumes "pass1_line n ln st = Inr st'" and "\<not> is_org_line ln"
  shows "\<exists>k. length (ast st') = length (ast st) + k \<and>
           currentAddress st' = counted (currentAddress st) k"
proof -
  have one: "nearest_double (currentAddress st + 1) = counted (currentAddress st) (Suc 0)"
    by (simp add: counted_Suc)
  consider (same) "length (ast st') = length (ast st)" "currentAddress st' = currentAddress st"
    | (pushed) "length (ast st') = length (ast st) + 1"
        "currentAddress st' = nearest_double (currentAddress st + 1)"
    using pass1_line_cases [OF assms(1)] assms(2)
    by (auto simp add: only_data_emitted_def)
  then show ?thesis
  proof cases
    case same
    then show ?thesis by (intro exI [of _ 0]) simp
  next
    case pushed
    then show ?thesis using one by (intro exI [of _ "Suc 0"]) simp
  qed
qed

lemma pass1_append:
  "pass1 i (xs @ ys) st = and_then (pass1 i xs st) (pass1 (i + length xs) ys)"
proof (induction xs arbitrary: i st)
  case Nil
  then show ?case by simp
next
  case (Cons x xs)
  show ?case
  proof (cases "pass1_line (i + 1) x st")
    case (Inl e)
    then show ?thesis by simp
  next
    case (Inr st1)
    then show ?thesis using Cons [of "i + 1" st1] by simp
  qed
qed

lemma pass1_labels:
  assumes "pass1 i lns st = Inr st'"
  shows "labels st \<subseteq>\<^sub>m labels st'"
  using assms
proof (induction lns arbitrary: i st)
  case Nil
  then show ?case by simp
next
  case (Cons ln lns)
  then obtain st1 where a: "pass1_line (i + 1) ln st = Inr st1" and b: "pass1 (i + 1) lns st1 = Inr st'"
    by auto
  show ?case using map_le_trans [OF pass1_line_labels [OF a] Cons.IH [OF b]] .
qed

lemma pass1_data:
  assumes "pass1 i lns st = Inr st'"
  shows "data_extends st st'"
  using assms
proof (induction lns arbitrary: i st)
  case Nil
  then show ?case by simp
next
  case (Cons ln lns)
  then obtain st1 where a: "pass1_line (i + 1) ln st = Inr st1" and b: "pass1 (i + 1) lns st1 = Inr st'"
    by auto
  show ?case using data_extends_trans [OF pass1_line_data [OF a] Cons.IH [OF b]] .
qed

lemma pass1_ast:
  assumes "pass1 i lns st = Inr st'"
  shows "\<exists>ext. ast st' = ast st @ ext \<and> list_all (\<lambda>ins. i < line ins \<and> line ins \<le> i + length lns) ext"
  using assms
proof (induction lns arbitrary: i st)
  case Nil
  then show ?case by simp
next
  case (Cons ln lns)
  then obtain st1 where a: "pass1_line (i + 1) ln st = Inr st1" and b: "pass1 (i + 1) lns st1 = Inr st'"
    by auto
  obtain e1 where e1: "ast st1 = ast st @ e1" "list_all (\<lambda>ins. line ins = i + 1) e1"
    using pass1_line_ast [OF a] by blast
  obtain e2 where e2: "ast st' = ast st1 @ e2"
    "list_all (\<lambda>ins. i + 1 < line ins \<and> line ins \<le> i + 1 + length lns) e2"
    using Cons.IH [OF b] by blast
  have "ast st' = ast st @ (e1 @ e2)" using e1(1) e2(1) by simp
  moreover have "list_all (\<lambda>ins. i < line ins \<and> line ins \<le> i + length (ln # lns)) (e1 @ e2)"
    using e1(2) e2(2) by (auto simp add: list_all_iff)
  ultimately show ?case by blast
qed

lemma pass1_address:
  assumes "pass1 i lns st = Inr st'" and "list_all (\<lambda>l. \<not> is_org_line l) lns"
  shows "length (ast st) \<le> length (ast st') \<and>
         currentAddress st' = counted (currentAddress st) (length (ast st') - length (ast st))"
  using assms
proof (induction lns arbitrary: i st)
  case Nil
  then show ?case by simp
next
  case (Cons ln lns)
  then obtain st1 where a: "pass1_line (i + 1) ln st = Inr st1" and b: "pass1 (i + 1) lns st1 = Inr st'"
    by auto
  from Cons.prems(2) have n: "\<not> is_org_line ln" and ns: "list_all (\<lambda>l. \<not> is_org_line l) lns"
    by simp_all
  obtain k where k: "length (ast st1) = length (ast st) + k"
    "currentAddress st1 = counted (currentAddress st) k"
    using pass1_line_address [OF a n] by blast
  have r: "length (ast st1) \<le> length (ast st')"
    "currentAddress st' = counted (currentAddress st1) (length (ast st') - length (ast st1))"
    using Cons.IH [OF b ns] by simp_all
  have "k + (length (ast st') - length (ast st1)) = length (ast st') - length (ast st)"
    using k(1) r(1) by simp
  then show ?case using k r by (simp add: counted_add)
qed

lemma pass2_line_lines:
  assumes "pass2_line n ln tbl acc = Inr acc'"
  shows "map line (fst acc') = map line (fst acc)"
proof -
  have upd: "map line (xs[k := (xs ! k)\<lparr>operands := ops\<rparr>]) = map line xs" for xs :: "Instruction list" and k ops
  proof (rule nth_equalityI)
    show "length (map line (xs[k := (xs ! k)\<lparr>operands := ops\<rparr>])) = length (map line xs)"
      by simp
    fix i assume "i < length (map line (xs[k := (xs ! k)\<lparr>operands := ops\<rparr>]))"
    then show "map line (xs[k := (xs ! k)\<lparr>operands := ops\<rparr>]) ! i = map line xs ! i"
      by (cases "i = k") simp_all
  qed
  show ?thesis using assms upd
    by (auto simp add: pass2_line_def Let_def split: if_splits)
qed

lemma pass2_lines:
  assumes "pass2 i lns tbl acc = Inr acc'"
  shows "map line (fst acc') = map line (fst acc)"
  using assms
proof (induction lns arbitrary: i acc)
  case Nil
  then show ?case by simp
next
  case (Cons ln lns)
  then obtain acc1 where a: "pass2_line (i + 1) ln tbl acc = Inr acc1"
    and b: "pass2 (i + 1) lns tbl acc1 = Inr acc'"
    by auto
  show ?case using pass2_line_lines [OF a] Cons.IH [OF b] by simp
qed

lemma initial_state_simps [simp]:
  "ast (initial_state lns) = []" "labels (initial_state lns) = Map.empty"
  "currentAddress (initial_state lns) = 0" "dataPtr (initial_state lns) = 0"
  "dataSection (initial_state lns) = (\<lambda>_. 0)" "inDataSection (initial_state lns) = False"
  by (simp_all add: initial_state_def)

lemma starts_with_dot:
  assumes "starts_with t ''.''"
  shows "t \<noteq> []" and "\<not> starts_with t '';''" and "\<not> starts_with t ''//''"
  using assms by (cases t; auto simp add: starts_with_def)+

lemma pass1_line_org:
  assumes "pass1_line n ln st = Inr st'" and "is_org_line ln"
  shows "ast st' = ast st \<and> (\<exists>a. org_operand ln = Parsed a \<and> 0 \<le> a \<and> currentAddress st' = a)"
proof -
  let ?t = "trim ln"
  have dot: "starts_with ?t ''.''" and org: "toUpperCase (first_token ?t) = ''.ORG''"
    using assms(2) by (simp_all add: is_org_line_def)
  have "pass1_directive n ?t st = Inr st'"
    using assms(1) dot starts_with_dot [OF dot] by (simp add: pass1_line_def Let_def)
  then show ?thesis using org
    by (auto simp add: pass1_directive_def org_operand_def Let_def split: if_splits parsed.splits)
qed

text \<open>The data a line stores, and the region the next line is in.\<close>

lemma stored_refl [simp]: "stored st [] st"
  by (simp add: stored_def)

lemma stored_trans:
  assumes "stored a bs b" and "stored b cs c"
  shows "stored a (bs @ cs) c"
proof -
  have pa: "dataPtr b = dataPtr a + length bs" and pb: "dataPtr c = dataPtr b + length cs"
    using assms by (simp_all add: stored_def)
  have "dataSection c (dataPtr a + i) = (bs @ cs) ! i" if "i < length (bs @ cs)" for i
  proof (cases "i < length bs")
    case True
    then have "dataSection c (dataPtr a + i) = dataSection b (dataPtr a + i)"
      using assms(2) pa by (simp add: stored_def)
    then show ?thesis using assms(1) True by (simp add: stored_def nth_append)
  next
    case False
    then have "i - length bs < length cs" using that by simp
    then have "dataSection c (dataPtr b + (i - length bs)) = cs ! (i - length bs)"
      using assms(2) by (simp add: stored_def)
    moreover have "dataPtr b + (i - length bs) = dataPtr a + i" using False pa by simp
    ultimately show ?thesis using False by (simp add: nth_append)
  qed
  moreover have "dataSection c k = dataSection a k" if "k < dataPtr a" for k
    using that assms pa by (simp add: stored_def)
  ultimately show ?thesis using pa pb by (simp add: stored_def)
qed

lemma stored_cong:
  assumes "dataPtr a' = dataPtr a" and "dataSection a' = dataSection a"
  shows "stored a' bs c = stored a bs c"
  using assms by (simp add: stored_def)

lemma stored_emit_byte: "stored st [b] (emit_byte b st)"
  by (simp add: stored_def emit_byte_def)

lemma emit_bytes_stored:
  "emit_bytes n bs st = Inr st' \<Longrightarrow> stored st bs st'"
proof (induction bs arbitrary: st)
  case Nil
  then show ?case by simp
next
  case (Cons b bs)
  then have "stored (emit_byte b st) bs st'" by (simp split: if_splits)
  then have "stored st ([b] @ bs) st'" by (rule stored_trans [OF stored_emit_byte])
  then show ?case by simp
qed

lemma emit_words_stored:
  "emit_words n vs st = Inr st' \<Longrightarrow> stored st (concat (map word_bytes vs)) st'"
proof (induction vs arbitrary: st)
  case Nil
  then show ?case by simp
next
  case (Cons v vs)
  let ?w = "word_of_int v :: 32 word"
  let ?s1 = "emit_byte (ucast ?w) st"
  let ?s2 = "emit_byte (ucast (drop_bit 8 ?w)) ?s1"
  let ?s3 = "emit_byte (ucast (drop_bit 16 ?w)) ?s2"
  let ?s4 = "emit_byte (ucast (drop_bit 24 ?w)) ?s3"
  from Cons have rest: "stored ?s4 (concat (map word_bytes vs)) st'" by (simp split: if_splits)
  have "stored ?s2 ([ucast (drop_bit 16 ?w)] @ [ucast (drop_bit 24 ?w)]) ?s4"
    by (rule stored_trans [OF stored_emit_byte stored_emit_byte])
  then have "stored ?s1 ([ucast (drop_bit 8 ?w)] @ [ucast (drop_bit 16 ?w)] @ [ucast (drop_bit 24 ?w)]) ?s4"
    by (rule stored_trans [OF stored_emit_byte])
  then have "stored st ([ucast ?w] @ [ucast (drop_bit 8 ?w)] @ [ucast (drop_bit 16 ?w)] @
      [ucast (drop_bit 24 ?w)]) ?s4"
    by (rule stored_trans [OF stored_emit_byte])
  then have "stored st (word_bytes v) ?s4" by (simp add: word_bytes_def Let_def)
  then have "stored st (word_bytes v @ concat (map word_bytes vs)) st'"
    using rest by (rule stored_trans)
  then show ?case by simp
qed

lemma parse_word_values_line:
  "parse_word_values n vs = Inr xs \<Longrightarrow> parse_word_values m vs = Inr xs"
proof (induction vs arbitrary: xs)
  case Nil
  then show ?case by simp
next
  case (Cons v vs)
  then show ?case by (auto split: parsed.splits)
qed

lemma parse_byte_values_line:
  "parse_byte_values n vs = Inr xs \<Longrightarrow> parse_byte_values m vs = Inr xs"
proof (induction vs arbitrary: xs)
  case Nil
  then show ?case by simp
next
  case (Cons v vs)
  then show ?case by (auto split: parsed.splits if_splits)
qed

lemma word_directive_stored:
  assumes "word_directive n parts st = Inr st'"
  shows "stored st (word_data parts) st'"
proof -
  obtain vals where p: "parse_word_values n (split_on (CHR '','') (join_space (tl parts))) = Inr vals"
    and e: "emit_words n vals st = Inr st'"
    using assms by (auto simp add: word_directive_def split: if_splits)
  have "word_data parts = concat (map word_bytes vals)"
    using parse_word_values_line [OF p, of 0] by (simp add: word_data_def values_of_def)
  then show ?thesis using emit_words_stored [OF e] by simp
qed

lemma byte_directive_stored:
  assumes "byte_directive n parts st = Inr st'"
  shows "stored st (byte_data parts) st'"
proof -
  obtain vals where p: "parse_byte_values n (split_on (CHR '','') (join_space (tl parts))) = Inr vals"
    and e: "emit_bytes n (map word_of_int vals) st = Inr st'"
    using assms by (auto simp add: byte_directive_def split: if_splits)
  have "byte_data parts = map word_of_int vals"
    using parse_byte_values_line [OF p, of 0] by (simp add: byte_data_def values_of_def)
  then show ?thesis using emit_bytes_stored [OF e] by simp
qed

lemma string_directive_stored:
  assumes "string_directive n t st = Inr st'"
  shows "stored st (string_data t) st'"
  using assms
  by (auto simp add: string_directive_def string_data_def split: option.splits
      dest: emit_bytes_stored)

lemma pass1_directive_stored:
  assumes "pass1_directive n t st = Inr st'"
  shows "stored st
           (if \<not> inDataSection st then []
            else if toUpperCase (first_token t) = ''.WORD'' then word_data (split_ws t)
            else if toUpperCase (first_token t) = ''.BYTE'' then byte_data (split_ws t)
            else if toUpperCase (first_token t) = ''.STRING'' then string_data t
            else []) st' \<and>
         inDataSection st' =
           (if toUpperCase (first_token t) = ''.DATA'' then True
            else if toUpperCase (first_token t) = ''.TEXT'' then False
            else inDataSection st)"
proof -
  let ?d = "toUpperCase (first_token t)"
  consider (is_data) "?d = ''.DATA''" | (is_text) "?d = ''.TEXT''" | (is_org) "?d = ''.ORG''"
    | (is_word) "?d = ''.WORD''" | (is_byte) "?d = ''.BYTE''" | (is_string) "?d = ''.STRING''"
    | (is_other) "?d \<noteq> ''.DATA''" "?d \<noteq> ''.TEXT''" "?d \<noteq> ''.ORG''" "?d \<noteq> ''.WORD''"
        "?d \<noteq> ''.BYTE''" "?d \<noteq> ''.STRING''"
    by blast
  then show ?thesis
  proof cases
    case is_data
    then have "st' = st\<lparr>inDataSection := True\<rparr>"
      using assms by (simp add: pass1_directive_def Let_def)
    then show ?thesis using is_data by (simp add: stored_def)
  next
    case is_text
    then have "st' = st\<lparr>textStart := currentAddress st, inDataSection := False\<rparr>"
      using assms by (simp add: pass1_directive_def Let_def)
    then show ?thesis using is_text by (simp add: stored_def)
  next
    case is_org
    then have "\<exists>a. st' = st\<lparr>currentAddress := a\<rparr>"
      using assms by (auto simp add: pass1_directive_def Let_def split: if_splits parsed.splits)
    then show ?thesis using is_org by (auto simp add: stored_def)
  next
    case is_word
    show ?thesis
    proof (cases "inDataSection st")
      case True
      then have w: "word_directive n (split_ws t) st = Inr st'"
        using assms is_word by (simp add: pass1_directive_def Let_def)
      show ?thesis
        using word_directive_stored [OF w] word_directive_only_data [OF w] is_word True
        by (simp add: only_data_emitted_def)
    next
      case False
      then have "st' = st" using assms is_word by (simp add: pass1_directive_def Let_def)
      then show ?thesis using is_word False by simp
    qed
  next
    case is_byte
    show ?thesis
    proof (cases "inDataSection st")
      case True
      then have w: "byte_directive n (split_ws t) st = Inr st'"
        using assms is_byte by (simp add: pass1_directive_def Let_def)
      show ?thesis
        using byte_directive_stored [OF w] byte_directive_only_data [OF w] is_byte True
        by (simp add: only_data_emitted_def)
    next
      case False
      then have "st' = st" using assms is_byte by (simp add: pass1_directive_def Let_def)
      then show ?thesis using is_byte False by simp
    qed
  next
    case is_string
    show ?thesis
    proof (cases "inDataSection st")
      case True
      then have w: "string_directive n t st = Inr st'"
        using assms is_string by (simp add: pass1_directive_def Let_def)
      show ?thesis
        using string_directive_stored [OF w] string_directive_only_data [OF w] is_string True
        by (simp add: only_data_emitted_def)
    next
      case False
      then have "st' = st" using assms is_string by (simp add: pass1_directive_def Let_def)
      then show ?thesis using is_string False by simp
    qed
  next
    case is_other
    then show ?thesis using assms by (simp add: pass1_directive_def Let_def)
  qed
qed

lemma starts_with_WORD:
  assumes "starts_with t ''.WORD''"
  shows "t \<noteq> []" and "\<not> starts_with t '';''" and "\<not> starts_with t ''//''"
  using assms by (cases t; auto simp add: starts_with_def)+

lemma pass1_label_stored:
  assumes "pass1_label n t st = Inr st'"
  shows "stored st
           (if starts_with (trim (tl (dropWhile (\<lambda>c. c \<noteq> CHR '':'') t))) ''.WORD''
            then word_data (split_ws (trim (tl (dropWhile (\<lambda>c. c \<noteq> CHR '':'') t)))) else []) st' \<and>
         inDataSection st' = inDataSection st"
proof -
  let ?after = "trim (tl (dropWhile (\<lambda>c. c \<noteq> CHR '':'') t))"
  let ?name = "trim (takeWhile (\<lambda>c. c \<noteq> CHR '':'') t)"
  let ?st1 = "st\<lparr>labels := (labels st)(?name \<mapsto>
                 (if inDataSection st then int (dataPtr st) else currentAddress st))\<rparr>"
  show ?thesis
  proof (cases "starts_with ?after ''.WORD''")
    case True
    have w: "word_directive n (split_ws ?after) ?st1 = Inr st'"
      using assms True starts_with_WORD [OF True]
      by (simp add: pass1_label_def Let_def split: if_splits)
    have "stored ?st1 (word_data (split_ws ?after)) st'"
      by (rule word_directive_stored [OF w])
    then have "stored st (word_data (split_ws ?after)) st'"
      by (simp add: stored_def)
    then show ?thesis
      using True word_directive_only_data [OF w] by (simp add: only_data_emitted_def)
  next
    case False
    have "st' = ?st1 \<or> (\<exists>opc src. st' = push_instruction opc n src ?st1)"
      using assms False by (auto simp add: pass1_label_def Let_def split: if_splits)
    then show ?thesis using False by (auto simp add: stored_def)
  qed
qed

lemma starts_with_not_dot:
  assumes "t = [] \<or> starts_with t '';'' \<or> starts_with t ''//''"
  shows "\<not> starts_with t ''.''"
  using assms by (cases t) (auto simp add: starts_with_def)

lemma pass1_line_stored:
  assumes "pass1_line n ln st = Inr st'"
  shows "stored st (line_data (inDataSection st) ln) st' \<and>
         inDataSection st' = next_region (inDataSection st) ln"
proof -
  let ?t = "trim ln"
  consider (skip) "?t = [] \<or> starts_with ?t '';'' \<or> starts_with ?t ''//''"
    | (dir) "\<not> (?t = [] \<or> starts_with ?t '';'' \<or> starts_with ?t ''//'')" "starts_with ?t ''.''"
    | (lab) "\<not> (?t = [] \<or> starts_with ?t '';'' \<or> starts_with ?t ''//'')" "\<not> starts_with ?t ''.''"
        "CHR '':'' \<in> set ?t"
    | (ins) "\<not> (?t = [] \<or> starts_with ?t '';'' \<or> starts_with ?t ''//'')" "\<not> starts_with ?t ''.''"
        "CHR '':'' \<notin> set ?t"
    by blast
  then show ?thesis
  proof cases
    case skip
    then have "st' = st" using assms by (auto simp add: pass1_line_def Let_def)
    moreover have "line_data (inDataSection st) ln = []"
      using skip by (auto simp add: line_data_def Let_def)
    moreover have "next_region (inDataSection st) ln = inDataSection st"
      using starts_with_not_dot [OF skip]
      by (simp add: next_region_def is_data_line_def is_text_line_def)
    ultimately show ?thesis by simp
  next
    case dir
    then have d: "pass1_directive n ?t st = Inr st'"
      using assms by (auto simp add: pass1_line_def Let_def)
    have "line_data (inDataSection st) ln =
        (if \<not> inDataSection st then []
         else if toUpperCase (first_token ?t) = ''.WORD'' then word_data (split_ws ?t)
         else if toUpperCase (first_token ?t) = ''.BYTE'' then byte_data (split_ws ?t)
         else if toUpperCase (first_token ?t) = ''.STRING'' then string_data ?t
         else [])"
      using dir by (simp add: line_data_def Let_def)
    moreover have "next_region (inDataSection st) ln =
        (if toUpperCase (first_token ?t) = ''.DATA'' then True
         else if toUpperCase (first_token ?t) = ''.TEXT'' then False
         else inDataSection st)"
      using dir(2) by (simp add: next_region_def is_data_line_def is_text_line_def)
    ultimately show ?thesis using pass1_directive_stored [OF d] by simp
  next
    case lab
    then have l: "pass1_label n ?t st = Inr st'"
      using assms by (auto simp add: pass1_line_def Let_def)
    have "line_data (inDataSection st) ln =
        (if starts_with (trim (tl (dropWhile (\<lambda>c. c \<noteq> CHR '':'') ?t))) ''.WORD''
         then word_data (split_ws (trim (tl (dropWhile (\<lambda>c. c \<noteq> CHR '':'') ?t)))) else [])"
      using lab by (simp add: line_data_def Let_def)
    moreover have "next_region (inDataSection st) ln = inDataSection st"
      using lab(2) by (simp add: next_region_def is_data_line_def is_text_line_def)
    ultimately show ?thesis using pass1_label_stored [OF l] by simp
  next
    case ins
    have "st' = st \<or> (\<exists>opc src. st' = push_instruction opc n src st)"
      using assms ins by (auto simp add: pass1_line_def Let_def split: if_splits)
    moreover have "line_data (inDataSection st) ln = []"
      using ins by (simp add: line_data_def Let_def)
    moreover have "next_region (inDataSection st) ln = inDataSection st"
      using ins(2) by (simp add: next_region_def is_data_line_def is_text_line_def)
    ultimately show ?thesis by (auto simp add: stored_def)
  qed
qed

lemma pass1_stored:
  assumes "pass1 i lns st = Inr st'"
  shows "stored st (data_image (inDataSection st) lns) st' \<and>
         inDataSection st' = foldl next_region (inDataSection st) lns"
  using assms
proof (induction lns arbitrary: i st)
  case Nil
  then show ?case by simp
next
  case (Cons ln lns)
  then obtain st1 where a: "pass1_line (i + 1) ln st = Inr st1" and b: "pass1 (i + 1) lns st1 = Inr st'"
    by auto
  have one: "stored st (line_data (inDataSection st) ln) st1"
    "inDataSection st1 = next_region (inDataSection st) ln"
    using pass1_line_stored [OF a] by simp_all
  have rest: "stored st1 (data_image (inDataSection st1) lns) st'"
    "inDataSection st' = foldl next_region (inDataSection st1) lns"
    using Cons.IH [OF b] by simp_all
  show ?case using stored_trans [OF one(1) rest(1)] one(2) rest(2) by simp
qed

subsection \<open>The label table\<close>

text \<open>
  Claim C6 as the spec states it, every label defined in a \<^verbatim>\<open>.TEXT\<close> region maps to
  the index in the instruction array of the next instruction, fails after an
  \<^verbatim>\<open>.ORG\<close> directive: pass 1 records \<^verbatim>\<open>currentAddress\<close> for the label, and
  \<^verbatim>\<open>.ORG\<close> sets \<^verbatim>\<open>currentAddress\<close> without touching the instruction array. The
  source \<^verbatim>\<open>.TEXT / .ORG 5 / L: / HALT\<close> is accepted, \<open>L\<close> maps to 5, and the
  instruction array is \<open>[HALT]\<close>, whose only index is 0.
\<close>

theorem org_label_counterexample:
  "(case assemble org_source of
      Inl e \<Rightarrow> False
    | Inr prog \<Rightarrow> labels prog ''L'' = Some 5 \<and> map op (ast prog) = [''HALT''])"
  by code_simp

text \<open>
  Claim C6, amended. Let \<open>assemble\<close> accept a source text, and let one of its lines,
  after the lines \<open>pre\<close>, define the label \<open>name\<close>; write \<open>st\<close> for the state of pass 1
  after the lines \<open>pre\<close> (pass 1 does succeed on them). The region of the label's line is
  read off the directives \<^verbatim>\<open>.DATA\<close> and \<^verbatim>\<open>.TEXT\<close> among the lines before it
  (\<open>in_data_region pre\<close>). Then the label table of the program maps \<open>name\<close> to the data
  cursor \<open>dataPtr st\<close> when the line is in a \<^verbatim>\<open>.DATA\<close> region, and to the current code
  address \<open>currentAddress st\<close> when it is in a \<^verbatim>\<open>.TEXT\<close> region. Moreover:

  \<^item> if no \<^verbatim>\<open>.ORG\<close> directive precedes the line, the current code address is a
    counter that started at 0 and was incremented once for each instruction recorded so
    far; after an \<^verbatim>\<open>.ORG\<close> (the last one before the line) it is a counter that started
    at the operand of that directive and was incremented once for each instruction
    recorded since. Such a counter is the sum of its start and of the number of its
    increments where that sum is at most \<open>2^53\<close>;
  \<^item> the number of instructions recorded so far is the index of the next instruction:
    in the instruction array of the program, the instructions below this index are those
    of earlier lines, and the instructions from this index on are those of the label's own
    line and of later lines;
  \<^item> the data cursor is the byte offset of the next datum: it is the number of bytes of
    the data of the lines before the label, the data buffer of the program holds these
    bytes below it (the rest of the assembly leaves them unchanged), nothing has been
    stored at or above it when the label is defined, and the data of the label's line and
    of the lines after it lie in the data buffer of the program from the cursor on, in
    their order.
\<close>

theorem label_table_values:
  assumes acc: "assemble src = Inr prog"
    and split: "split_on (CHR 0x0A) src = pre @ ln # post"
    and def: "defines_label ln = Some name"
  shows "\<exists>st. pass1 0 pre (initial_state (split_on (CHR 0x0A) src)) = Inr st \<and>
           inDataSection st = in_data_region pre \<and>
           labels prog name = Some (if in_data_region pre then int (dataPtr st) else currentAddress st) \<and>
           (list_all (\<lambda>l. \<not> is_org_line l) pre \<longrightarrow>
              currentAddress st = counted 0 (length (ast st)) \<and>
              (int (length (ast st)) \<le> 2 ^ 53 \<longrightarrow> currentAddress st = int (length (ast st)))) \<and>
           (\<forall>pre1 org pre2.
              pre = pre1 @ org # pre2 \<and> is_org_line org \<and> list_all (\<lambda>l. \<not> is_org_line l) pre2 \<longrightarrow>
              (\<exists>s1 a. pass1 0 pre1 (initial_state (split_on (CHR 0x0A) src)) = Inr s1 \<and>
                 org_operand org = Parsed a \<and> 0 \<le> a \<and> length (ast s1) \<le> length (ast st) \<and>
                 currentAddress st = counted a (length (ast st) - length (ast s1)) \<and>
                 (a + int (length (ast st) - length (ast s1)) \<le> 2 ^ 53 \<longrightarrow>
                    currentAddress st = a + int (length (ast st) - length (ast s1))))) \<and>
           length (ast st) \<le> length (ast prog) \<and>
           (\<forall>i<length (ast prog).
              (i < length (ast st) \<longrightarrow> line (ast prog ! i) \<le> length pre) \<and>
              (length (ast st) \<le> i \<longrightarrow> length pre < line (ast prog ! i))) \<and>
           dataPtr st = length (data_image False pre) \<and>
           (\<forall>k<dataPtr st. dataSection prog k = data_image False pre ! k) \<and>
           (\<forall>i<length (data_image (in_data_region pre) (ln # post)).
              dataSection prog (dataPtr st + i) = data_image (in_data_region pre) (ln # post) ! i) \<and>
           (\<forall>k<dataPtr st. dataSection prog k = dataSection st k) \<and>
           (\<forall>k\<ge>dataPtr st. dataSection st k = 0)"
proof -
  let ?lns = "split_on (CHR 0x0A) src"
  let ?s0 = "initial_state ?lns"
  obtain stf acc2 where p1: "pass1 0 ?lns ?s0 = Inr stf"
    and p2: "pass2 0 ?lns (labels stf) (ast stf, 0) = Inr acc2"
    and prog: "prog = \<lparr>lines = lines stf, ast = fst acc2, labels = labels stf,
                 dataSection = dataSection stf, textStart = textStart stf\<rparr>"
    using acc by (auto simp add: assemble_def Let_def split: if_splits)
  from p1 obtain st st1 where a: "pass1 0 pre ?s0 = Inr st"
    and b: "pass1_line (length pre + 1) ln st = Inr st1"
    and c: "pass1 (length pre + 1) post st1 = Inr stf"
    unfolding split by (auto simp add: pass1_append)
  have bc: "pass1 (length pre) (ln # post) st = Inr stf"
    using b c by simp
  have region: "inDataSection st = in_data_region pre"
    using pass1_stored [OF a] by (simp add: in_data_region_def)
  have lab1: "labels st1 name = Some (if inDataSection st then int (dataPtr st) else currentAddress st)"
    by (rule pass1_line_label_value [OF b def])
  have lab: "labels prog name = Some (if in_data_region pre then int (dataPtr st) else currentAddress st)"
    using pass1_labels [OF c] lab1 prog region by (auto simp add: map_le_def dom_def)
  have addr: "currentAddress st = counted 0 (length (ast st)) \<and>
      (int (length (ast st)) \<le> 2 ^ 53 \<longrightarrow> currentAddress st = int (length (ast st)))"
    if no: "list_all (\<lambda>l. \<not> is_org_line l) pre"
  proof -
    have "currentAddress st = counted 0 (length (ast st))"
      using pass1_address [OF a no] by simp
    then show ?thesis using counted_exact [of 0 "length (ast st)"] by simp
  qed
  have orgs: "\<exists>s1 a. pass1 0 pre1 ?s0 = Inr s1 \<and> org_operand org = Parsed a \<and> 0 \<le> a \<and>
      length (ast s1) \<le> length (ast st) \<and>
      currentAddress st = counted a (length (ast st) - length (ast s1)) \<and>
      (a + int (length (ast st) - length (ast s1)) \<le> 2 ^ 53 \<longrightarrow>
         currentAddress st = a + int (length (ast st) - length (ast s1)))"
    if d: "pre = pre1 @ org # pre2" and o: "is_org_line org"
      and n: "list_all (\<lambda>l. \<not> is_org_line l) pre2" for pre1 org pre2
  proof -
    from a obtain s1 s2 where x: "pass1 0 pre1 ?s0 = Inr s1"
      and y: "pass1_line (length pre1 + 1) org s1 = Inr s2"
      and z: "pass1 (length pre1 + 1) pre2 s2 = Inr st"
      unfolding d by (auto simp add: pass1_append)
    obtain a' where q: "ast s2 = ast s1" "org_operand org = Parsed a'" "0 \<le> a'" "currentAddress s2 = a'"
      using pass1_line_org [OF y o] by blast
    have r: "length (ast s2) \<le> length (ast st)"
      "currentAddress st = counted (currentAddress s2) (length (ast st) - length (ast s2))"
      using pass1_address [OF z n] by simp_all
    have "currentAddress st = counted a' (length (ast st) - length (ast s1))"
      using r(2) q by simp
    moreover have "a' + int (length (ast st) - length (ast s1)) \<le> 2 ^ 53 \<longrightarrow>
        counted a' (length (ast st) - length (ast s1)) = a' + int (length (ast st) - length (ast s1))"
      using counted_exact [OF q(3)] by blast
    ultimately show ?thesis using x q r(1) by auto
  qed
  obtain e0 where e0: "ast st = e0" "list_all (\<lambda>ins. 0 < line ins \<and> line ins \<le> length pre) e0"
    using pass1_ast [OF a] by auto
  obtain e1 where e1: "ast st1 = ast st @ e1" "list_all (\<lambda>ins. line ins = length pre + 1) e1"
    using pass1_line_ast [OF b] by blast
  obtain e2 where e2: "ast stf = ast st1 @ e2"
    "list_all (\<lambda>ins. length pre + 1 < line ins \<and> line ins \<le> length pre + 1 + length post) e2"
    using pass1_ast [OF c] by blast
  have lines: "map line (ast prog) = map line (ast st @ e1 @ e2)"
    using pass2_lines [OF p2] prog e1(1) e2(1) by simp
  then have len: "length (ast prog) = length (ast st) + length (e1 @ e2)"
    using map_eq_imp_length_eq by fastforce
  have nth: "line (ast prog ! i) = line ((ast st @ e1 @ e2) ! i)" if "i < length (ast prog)" for i
    using that lines len by (metis length_append nth_map)
  have low: "line (ast prog ! i) \<le> length pre" if "i < length (ast st)" for i
  proof -
    have "i < length (ast prog)" using that len by simp
    then have "line (ast prog ! i) = line (ast st ! i)" using nth that by (simp add: nth_append)
    then show ?thesis using e0 that by (auto simp add: list_all_length)
  qed
  have high: "length pre < line (ast prog ! i)" if "length (ast st) \<le> i" "i < length (ast prog)" for i
  proof -
    have i: "i - length (ast st) < length (e1 @ e2)" using that len by simp
    have "line (ast prog ! i) = line ((e1 @ e2) ! (i - length (ast st)))"
      using nth that by (simp add: nth_append)
    moreover have "list_all (\<lambda>ins. length pre < line ins) (e1 @ e2)"
      using e1(2) e2(2) by (auto simp add: list_all_iff)
    ultimately show ?thesis using i by (simp add: list_all_length)
  qed
  have de: "data_extends st stf"
    using data_extends_trans [OF pass1_line_data [OF b] pass1_data [OF c]] .
  have d1: "\<forall>k<dataPtr st. dataSection prog k = dataSection st k"
    using de prog by (simp add: data_extends_def)
  have d0: "\<forall>k\<ge>dataPtr st. dataSection st k = 0"
    using pass1_data [OF a] by (simp add: data_extends_def)
  have before: "stored ?s0 (data_image False pre) st"
    using pass1_stored [OF a] by simp
  have ptr: "dataPtr st = length (data_image False pre)"
    using before by (simp add: stored_def)
  have d2: "\<forall>k<dataPtr st. dataSection prog k = data_image False pre ! k"
    using before d1 ptr by (simp add: stored_def)
  have after: "stored st (data_image (in_data_region pre) (ln # post)) stf"
    using pass1_stored [OF bc] region by simp
  have d3: "\<forall>i<length (data_image (in_data_region pre) (ln # post)).
      dataSection prog (dataPtr st + i) = data_image (in_data_region pre) (ln # post) ! i"
    using after prog by (simp add: stored_def)
  have len': "length (ast st) \<le> length (ast prog)" using len by simp
  show ?thesis
  proof (intro exI [of _ st] conjI)
    show "pass1 0 pre ?s0 = Inr st" by (rule a)
    show "inDataSection st = in_data_region pre" by (rule region)
    show "labels prog name = Some (if in_data_region pre then int (dataPtr st) else currentAddress st)"
      by (rule lab)
    show "list_all (\<lambda>l. \<not> is_org_line l) pre \<longrightarrow>
        currentAddress st = counted 0 (length (ast st)) \<and>
        (int (length (ast st)) \<le> 2 ^ 53 \<longrightarrow> currentAddress st = int (length (ast st)))"
      using addr by blast
    show "\<forall>pre1 org pre2.
        pre = pre1 @ org # pre2 \<and> is_org_line org \<and> list_all (\<lambda>l. \<not> is_org_line l) pre2 \<longrightarrow>
        (\<exists>s1 a. pass1 0 pre1 ?s0 = Inr s1 \<and> org_operand org = Parsed a \<and> 0 \<le> a \<and>
           length (ast s1) \<le> length (ast st) \<and>
           currentAddress st = counted a (length (ast st) - length (ast s1)) \<and>
           (a + int (length (ast st) - length (ast s1)) \<le> 2 ^ 53 \<longrightarrow>
              currentAddress st = a + int (length (ast st) - length (ast s1))))"
      using orgs by blast
    show "length (ast st) \<le> length (ast prog)" by (rule len')
    show "\<forall>i<length (ast prog).
        (i < length (ast st) \<longrightarrow> line (ast prog ! i) \<le> length pre) \<and>
        (length (ast st) \<le> i \<longrightarrow> length pre < line (ast prog ! i))"
      using low high by blast
    show "dataPtr st = length (data_image False pre)" by (rule ptr)
    show "\<forall>k<dataPtr st. dataSection prog k = data_image False pre ! k" by (rule d2)
    show "\<forall>i<length (data_image (in_data_region pre) (ln # post)).
        dataSection prog (dataPtr st + i) = data_image (in_data_region pre) (ln # post) ! i"
      by (rule d3)
    show "\<forall>k<dataPtr st. dataSection prog k = dataSection st k" by (rule d1)
    show "\<forall>k\<ge>dataPtr st. dataSection st k = 0" by (rule d0)
  qed
qed

theorem label_table_values_witness:
  "(\<exists>prog. assemble jump_back_source = Inr prog \<and> labels prog ''back'' = Some 1) \<and>
   (\<exists>prog. assemble data_source = Inr prog \<and> labels prog ''x'' = Some 4 \<and>
      dataSection prog 4 = 9) \<and>
   (\<exists>prog. assemble far_org_source = Inr prog \<and> labels prog ''far'' = Some 9007199254740992)"
proof -
  have ok1: "(case assemble jump_back_source of Inl e \<Rightarrow> False | Inr prog \<Rightarrow> True)" by code_simp
  then obtain p1 where p1: "assemble jump_back_source = Inr p1"
    by (cases "assemble jump_back_source") auto
  have s1: "split_on (CHR 0x0A) jump_back_source = [''MOV R0, #1''] @ ''back:'' # [''JMP back'']"
    by code_simp
  have d1: "defines_label ''back:'' = Some ''back''" by code_simp
  have n1: "list_all (\<lambda>l. \<not> is_org_line l) [''MOV R0, #1'']" "\<not> in_data_region [''MOV R0, #1'']"
    by code_simp+
  have e1: "(case pass1 0 [''MOV R0, #1''] (initial_state (split_on (CHR 0x0A) jump_back_source)) of
      Inl e \<Rightarrow> False | Inr st \<Rightarrow> length (ast st) = 1)"
    by code_simp
  from label_table_values [OF p1 s1 d1] obtain st1 where
    a1: "pass1 0 [''MOV R0, #1''] (initial_state (split_on (CHR 0x0A) jump_back_source)) = Inr st1"
    and l1: "labels p1 ''back'' =
      Some (if in_data_region [''MOV R0, #1''] then int (dataPtr st1) else currentAddress st1)"
    and c1: "list_all (\<lambda>l. \<not> is_org_line l) [''MOV R0, #1''] \<longrightarrow>
      currentAddress st1 = counted 0 (length (ast st1)) \<and>
      (int (length (ast st1)) \<le> 2 ^ 53 \<longrightarrow> currentAddress st1 = int (length (ast st1)))"
    by (elim exE conjE) (rule that, assumption+)
  have "length (ast st1) = 1" using e1 by (simp only: a1 sum.simps)
  then have "currentAddress st1 = 1" using c1 n1(1) by simp
  then have r1: "labels p1 ''back'' = Some 1" using l1 n1(2) by simp
  have ok2: "(case assemble data_source of Inl e \<Rightarrow> False | Inr prog \<Rightarrow> True)" by code_simp
  then obtain p2 where p2: "assemble data_source = Inr p2"
    by (cases "assemble data_source") auto
  have s2: "split_on (CHR 0x0A) data_source =
      [''NOP'', ''.DATA'', ''.WORD 7''] @ ''x:'' # [''.BYTE 9'', ''.TEXT'', ''HALT'']"
    by code_simp
  have d2: "defines_label ''x:'' = Some ''x''" by code_simp
  have n2: "in_data_region [''NOP'', ''.DATA'', ''.WORD 7''] = True"
    "data_image False [''NOP'', ''.DATA'', ''.WORD 7''] = [7, 0, 0, 0]"
    "data_image True (''x:'' # [''.BYTE 9'', ''.TEXT'', ''HALT'']) = [9]"
    by code_simp+
  from label_table_values [OF p2 s2 d2] obtain st2 :: asm_state where
    l2: "labels p2 ''x'' =
      Some (if in_data_region [''NOP'', ''.DATA'', ''.WORD 7''] then int (dataPtr st2)
            else currentAddress st2)"
    and q2: "dataPtr st2 = length (data_image False [''NOP'', ''.DATA'', ''.WORD 7''])"
    and b2: "\<forall>i<length (data_image (in_data_region [''NOP'', ''.DATA'', ''.WORD 7''])
           (''x:'' # [''.BYTE 9'', ''.TEXT'', ''HALT''])).
       dataSection p2 (dataPtr st2 + i) =
         data_image (in_data_region [''NOP'', ''.DATA'', ''.WORD 7''])
           (''x:'' # [''.BYTE 9'', ''.TEXT'', ''HALT'']) ! i"
    by (elim exE conjE) (rule that, assumption+)
  have q2': "dataPtr st2 = 4" by (simp only: q2 n2(2)) simp
  have r2: "labels p2 ''x'' = Some 4" by (simp only: l2 n2(1) q2') simp
  have "\<forall>i<length [9 :: 8 word]. dataSection p2 (4 + i) = [9] ! i"
    using b2 by (simp only: n2(1,3) q2')
  then have r2b: "dataSection p2 4 = 9" by simp
  have ok3: "(case assemble far_org_source of Inl e \<Rightarrow> False | Inr prog \<Rightarrow> True)" by code_simp
  then obtain p3 where p3: "assemble far_org_source = Inr p3"
    by (cases "assemble far_org_source") auto
  have s3: "split_on (CHR 0x0A) far_org_source =
      [''.ORG 9007199254740992'', ''NOP''] @ ''far:'' # [''HALT'']"
    by code_simp
  have d3: "defines_label ''far:'' = Some ''far''" by code_simp
  have n3: "is_org_line ''.ORG 9007199254740992''" "list_all (\<lambda>l. \<not> is_org_line l) [''NOP'']"
    "\<not> in_data_region [''.ORG 9007199254740992'', ''NOP'']"
    "org_operand ''.ORG 9007199254740992'' = Parsed 9007199254740992"
    "counted 9007199254740992 1 = 9007199254740992"
    by code_simp+
  have e3: "(case pass1 0 [''.ORG 9007199254740992'', ''NOP'']
         (initial_state (split_on (CHR 0x0A) far_org_source)) of
        Inl e \<Rightarrow> False | Inr st \<Rightarrow> length (ast st) = 1)"
    by code_simp
  from label_table_values [OF p3 s3 d3] obtain st3 where
    a3: "pass1 0 [''.ORG 9007199254740992'', ''NOP'']
        (initial_state (split_on (CHR 0x0A) far_org_source)) = Inr st3"
    and l3: "labels p3 ''far'' =
      Some (if in_data_region [''.ORG 9007199254740992'', ''NOP''] then int (dataPtr st3)
            else currentAddress st3)"
    and o3: "\<forall>pre1 org pre2.
        [''.ORG 9007199254740992'', ''NOP''] = pre1 @ org # pre2 \<and> is_org_line org \<and>
        list_all (\<lambda>l. \<not> is_org_line l) pre2 \<longrightarrow>
        (\<exists>s1 a. pass1 0 pre1 (initial_state (split_on (CHR 0x0A) far_org_source)) = Inr s1 \<and>
           org_operand org = Parsed a \<and> 0 \<le> a \<and> length (ast s1) \<le> length (ast st3) \<and>
           currentAddress st3 = counted a (length (ast st3) - length (ast s1)) \<and>
           (a + int (length (ast st3) - length (ast s1)) \<le> 2 ^ 53 \<longrightarrow>
              currentAddress st3 = a + int (length (ast st3) - length (ast s1))))"
    by (elim exE conjE) (rule that, assumption+)
  have len3: "length (ast st3) = 1" using e3 by (simp only: a3 sum.simps)
  have "\<exists>s1 a. pass1 0 [] (initial_state (split_on (CHR 0x0A) far_org_source)) = Inr s1 \<and>
           org_operand ''.ORG 9007199254740992'' = Parsed a \<and> 0 \<le> a \<and>
           length (ast s1) \<le> length (ast st3) \<and>
           currentAddress st3 = counted a (length (ast st3) - length (ast s1)) \<and>
           (a + int (length (ast st3) - length (ast s1)) \<le> 2 ^ 53 \<longrightarrow>
              currentAddress st3 = a + int (length (ast st3) - length (ast s1)))"
    using n3(1,2) by (intro o3 [rule_format, of "[]" "''.ORG 9007199254740992''" "[''NOP'']"]) simp
  then have "currentAddress st3 = counted 9007199254740992 1"
    using n3(4) len3 by auto
  then have r3: "labels p3 ''far'' = Some 9007199254740992"
    using l3 n3(3,5) by simp
  show ?thesis using p1 r1 p2 r2 r2b p3 r3 by blast
qed

subsection \<open>Numbers and characters of the source text\<close>

text \<open>\<^verbatim>\<open>parseInt\<close> yields a double: of the digits \<open>9007199254740993\<close>, that is
  \<open>2^53 + 1\<close>, it yields \<open>2^53\<close>. And \<^verbatim>\<open>toUpperCase\<close> maps the Latin-1 letter
  \<^verbatim>\<open>U+00E9\<close> to \<^verbatim>\<open>U+00C9\<close>.\<close>

lemma parseInt_rounds:
  "parseInt ''9007199254740993'' = Parsed 9007199254740992"
  by code_simp

lemma toUpperCase_latin1:
  "toUpperCase [CHR 0xE9] = [CHR 0xC9]"
  by code_simp


end
